theory Spec2Isabelle
  imports Main "HOL-Library.AList"
begin

section \<open>Data model\<close>

text \<open>
  The development embeds the parcel-locker station of \<^verbatim>\<open>src/lab1\<close>:
  \<^verbatim>\<open>Parcel.py\<close>, \<^verbatim>\<open>Locker.py\<close>, \<^verbatim>\<open>Postomat.py\<close> and the phone functions of
  \<^verbatim>\<open>Validator.py\<close>.

  Conventions of the embedding.
  \<^item> A \<^verbatim>\<open>datetime\<close> is an \<open>int\<close> (microseconds on some fixed axis); every operation that
    reads \<^verbatim>\<open>datetime.now()\<close> takes the reading as its argument \<open>now\<close> (one reading per call).
  \<^item> A Python reference to a \<^verbatim>\<open>Parcel\<close> object is an address \<open>ref\<close>; the objects live in a
    store \<open>ref \<Rightarrow> Parcel\<close>, so that the caller, the locker and the station index alias the
    same object as they do in the source.
  \<^item> The user-facing messages of the source are Russian f-strings; each is a constructor of
    \<open>message\<close> carrying the values the f-string interpolates.
  \<^item> Exceptions are values: \<open>LockerError\<close>, \<open>ValueError\<close> and \<open>AttributeError\<close> are
    the left summand of a sum.
\<close>

type_synonym time = int
type_synonym ref = nat

datatype ParcelStatus = CREATED | IN_POSTOMAT | DELIVERED | EXPIRED

datatype ParcelSize = SMALL | MEDIUM | LARGE

datatype SecurityLevel = LOW | MEDIUM_LEVEL | HIGH

record Person =
  name :: string
  phone :: string
  email :: string
  person_id :: string

record Sender = Person +
  sender_address :: string

record Parcel =
  tracking_number :: string
  sender :: Sender
  recipient :: Person
  parcel_size :: ParcelSize
  description :: string
  status :: ParcelStatus
  created_at :: time
  placed_at :: "time option"
  delivered_at :: "time option"
  locker_number :: "int option"
  storage_days :: int
  storage_until :: "time option"

record Locker =
  number :: int
  locker_size :: ParcelSize
  is_occupied :: bool
  is_functional :: bool
  current_parcel :: "ref option"
  last_maintenance :: "time option"

datatype LockerError =
    LockerBroken int
  | LockerAlreadyOccupied int
  | ParcelTooBig int
  | LockerIsEmpty int

type_synonym store = "ref \<Rightarrow> Parcel"

section \<open>Parcel\<close>

text \<open>\<^verbatim>\<open>timedelta(days=d)\<close> in microseconds.\<close>

definition timedelta_days :: "int \<Rightarrow> int" where
  "timedelta_days d = d * 86400000000"

definition place_in_locker :: "Parcel \<Rightarrow> int \<Rightarrow> time \<Rightarrow> Parcel" where
  "place_in_locker p n now =
     p\<lparr>status := IN_POSTOMAT,
       placed_at := Some now,
       locker_number := Some n,
       storage_until := Some (now + timedelta_days (storage_days p))\<rparr>"

definition deliver :: "Parcel \<Rightarrow> time \<Rightarrow> Parcel" where
  "deliver p now = p\<lparr>status := DELIVERED, delivered_at := Some now\<rparr>"

text \<open>
  \<^verbatim>\<open>if not self.storage_until: return False\<close>, then \<^verbatim>\<open>datetime.now() > self.storage_until\<close>.
  A \<^verbatim>\<open>datetime\<close> object is always truthy, so the first test is the test for \<^verbatim>\<open>None\<close>.
\<close>

definition is_expired :: "Parcel \<Rightarrow> time \<Rightarrow> bool" where
  "is_expired p now =
     (case storage_until p of
        None \<Rightarrow> False
      | Some deadline \<Rightarrow> now > deadline)"

section \<open>Locker\<close>

fun size_order :: "ParcelSize \<Rightarrow> nat" where
  "size_order SMALL = 1"
| "size_order MEDIUM = 2"
| "size_order LARGE = 3"

definition new_locker :: "int \<Rightarrow> ParcelSize \<Rightarrow> Locker" where
  "new_locker n sz =
     \<lparr>number = n, locker_size = sz, is_occupied = False, is_functional = True,
      current_parcel = None, last_maintenance = None\<rparr>"

definition open_locker :: "Locker \<Rightarrow> LockerError + bool" where
  "open_locker l = (if \<not> is_functional l then Inl (LockerBroken (number l)) else Inr True)"

definition close_locker :: "Locker \<Rightarrow> bool" where
  "close_locker l = True"

text \<open>
  \<open>put_parcel\<close> mutates the locker and, through \<^verbatim>\<open>parcel.place_in_locker\<close>, the parcel
  object: it returns the new locker and the new store.
\<close>

definition put_parcel :: "Locker \<Rightarrow> ref \<Rightarrow> store \<Rightarrow> time \<Rightarrow> LockerError + (Locker \<times> store)" where
  "put_parcel l r h now =
     (if \<not> is_functional l then Inl (LockerBroken (number l))
      else if is_occupied l then Inl (LockerAlreadyOccupied (number l))
      else if size_order (parcel_size (h r)) > size_order (locker_size l)
        then Inl (ParcelTooBig (number l))
      else Inr (l\<lparr>is_occupied := True, current_parcel := Some r\<rparr>,
                h(r := place_in_locker (h r) (number l) now)))"

text \<open>
  \<open>take_parcel\<close> returns the reference held in \<^verbatim>\<open>current_parcel\<close> (which is \<^verbatim>\<open>None\<close> when an
  occupied locker holds no parcel) and the emptied locker.
\<close>

definition take_parcel :: "Locker \<Rightarrow> LockerError + (ref option \<times> Locker)" where
  "take_parcel l =
     (if \<not> is_functional l then Inl (LockerBroken (number l))
      else if \<not> is_occupied l then Inl (LockerIsEmpty (number l))
      else Inr (current_parcel l, l\<lparr>is_occupied := False, current_parcel := None\<rparr>))"

definition repair :: "Locker \<Rightarrow> time \<Rightarrow> Locker" where
  "repair l now = l\<lparr>is_functional := True, last_maintenance := Some now\<rparr>"

section \<open>Station\<close>

datatype AlertText =
    UserPerformedOperations string int
  | AttemptByNonRecipient string
  | LockerForciblyBroken int

record Alert =
  alert_timestamp :: time
  alert_type :: string
  alert_description :: AlertText

text \<open>The messages returned by the station, in the order the source produces them.\<close>

datatype message =
    MsgBlockedForSecurity
  | MsgSuspiciousActivityBlocked
  | MsgOK
  | MsgTemporarilyNotWorking
  | MsgAlreadyInPostomat string
  | MsgNoFreeLockerOfSize
  | MsgSentToLocker string int
  | MsgLockerError LockerError
  | MsgNotFound string
  | MsgNoRightsToReceive
  | MsgNotReady ParcelStatus
  | MsgStorageExpired
  | MsgLockerNotFound
  | MsgReceived string
  | MsgReceiveError LockerError
  | MsgNotificationSent string
  | MsgNotificationFailed
  | MsgNoLockersToBreak
  | MsgLockerBroken int
  | MsgSecurityReset

datatype NotificationText =
    ArrivedAtAddress string string int
  | Reminder string
  | CustomText string
  | NotCollected string

record Notification =
  notif_recipient :: Person
  notif_parcel :: ref
  notif_message :: NotificationText
  notif_created_at :: time
  sent_at :: "time option"
  is_sent :: bool
  attempts :: int

datatype Issue =
    WasBroken int
  | Repaired int
  | NeedsReplacement int

record Report =
  report_timestamp :: time
  technician :: string
  lockers_checked :: int
  broken_before :: int
  broken_after :: int
  lockers_repaired :: int
  failed_repairs :: int
  issues :: "Issue list"

datatype PyError = ValueError | AttributeError

text \<open>
  The station. \<open>parcels\<close> is the Python dict of the source as an association list in
  insertion order; \<open>parcel_heap\<close> is the store of \<^verbatim>\<open>Parcel\<close> objects that the references of
  \<open>parcels\<close> and of the lockers point into.
\<close>

record Postomat =
  postomat_id :: string
  address :: string
  total_lockers :: int
  security_level :: SecurityLevel
  is_operational :: bool
  security_alerts :: "Alert list"
  user_operations :: "string \<rightharpoonup> int"
  lockers :: "Locker list"
  parcels :: "(string \<times> ref) list"
  notifications :: "Notification list"
  maintenance_log :: "Report list"
  parcel_heap :: store

text \<open>
  \<^verbatim>\<open>_create_lockers\<close> builds \<^verbatim>\<open>total_lockers\<close> lockers (the 50/30/20 split of sizes is
  computed in floating point), shuffles them with \<^verbatim>\<open>random.shuffle\<close> and renumbers them
  \<open>1..N\<close>. The sequence of sizes after the shuffle is the parameter \<open>sizes\<close>.
\<close>

fun create_lockers_from :: "int \<Rightarrow> ParcelSize list \<Rightarrow> Locker list" where
  "create_lockers_from i [] = []"
| "create_lockers_from i (sz # szs) = new_locker i sz # create_lockers_from (i + 1) szs"

definition create_lockers :: "ParcelSize list \<Rightarrow> Locker list" where
  "create_lockers sizes = create_lockers_from 1 sizes"

definition Postomat_init ::
  "string \<Rightarrow> string \<Rightarrow> ParcelSize list \<Rightarrow> SecurityLevel \<Rightarrow> store \<Rightarrow> PyError + Postomat" where
  "Postomat_init pid addr sizes level h =
     (if pid = [] \<or> addr = [] then Inl ValueError
      else if int (length sizes) \<le> 0 then Inl ValueError
      else Inr \<lparr>postomat_id = pid, address = addr, total_lockers = int (length sizes),
                security_level = level, is_operational = True, security_alerts = [],
                user_operations = Map.empty, lockers = create_lockers sizes,
                parcels = [], notifications = [], maintenance_log = [],
                parcel_heap = h\<rparr>)"

subsection \<open>Security gate\<close>

definition log_security_alert :: "Postomat \<Rightarrow> string \<Rightarrow> AlertText \<Rightarrow> time \<Rightarrow> Postomat" where
  "log_security_alert s ty d now =
     (let s1 = s\<lparr>security_alerts := security_alerts s @
                  [\<lparr>alert_timestamp = now, alert_type = ty, alert_description = d\<rparr>]\<rparr>
      in if security_level s1 = HIGH \<and>
            ty \<in> set [''unauthorized_access'', ''suspicious_activity'']
         then s1\<lparr>is_operational := False\<rparr>
         else s1)"

definition check_security ::
  "Postomat \<Rightarrow> string \<Rightarrow> string \<Rightarrow> time \<Rightarrow> (bool \<times> message) \<times> Postomat" where
  "check_security s user_id operation now =
     (if \<not> is_operational s then ((False, MsgBlockedForSecurity), s)
      else
        let cnt = (case user_operations s user_id of None \<Rightarrow> 0 | Some c \<Rightarrow> c) + 1;
            s1 = s\<lparr>user_operations := (user_operations s)(user_id \<mapsto> cnt)\<rparr>
        in if cnt > 50 then
             (let s2 = log_security_alert s1 ''suspicious_activity''
                         (UserPerformedOperations user_id cnt) now
              in if security_level s2 = HIGH
                 then ((False, MsgSuspiciousActivityBlocked), s2)
                 else ((True, MsgOK), s2))
           else ((True, MsgOK), s1))"

subsection \<open>Notifications\<close>

text \<open>
  \<^verbatim>\<open>Notification.send\<close> sleeps and marks the notification sent; \<^verbatim>\<open>time.sleep(0.1)\<close> has
  no failure in this model, so \<^verbatim>\<open>_notify_recipient\<close> always appends the notification and
  returns it.
\<close>

definition notify_recipient_internal ::
  "Postomat \<Rightarrow> Person \<Rightarrow> ref \<Rightarrow> NotificationText \<Rightarrow> time \<Rightarrow> Notification option \<times> Postomat" where
  "notify_recipient_internal s rcp r msg now =
     (let n = \<lparr>notif_recipient = rcp, notif_parcel = r, notif_message = msg,
                notif_created_at = now, sent_at = Some now, is_sent = True, attempts = 1\<rparr>
      in (Some n, s\<lparr>notifications := notifications s @ [n]\<rparr>))"

subsection \<open>Sending\<close>

text \<open>
  \<open>find_available_locker\<close> returns the position in the bank of the locker object that the
  source returns.
\<close>

fun find_available_locker_loop :: "Locker list \<Rightarrow> ParcelSize \<Rightarrow> nat option" where
  "find_available_locker_loop [] required_size = None"
| "find_available_locker_loop (l # ls) required_size =
     (if \<not> is_occupied l \<and> is_functional l \<and>
         size_order (locker_size l) \<ge> size_order required_size
      then Some 0
      else map_option Suc (find_available_locker_loop ls required_size))"

definition find_available_locker :: "Postomat \<Rightarrow> ParcelSize \<Rightarrow> nat option" where
  "find_available_locker s required_size = find_available_locker_loop (lockers s) required_size"

text \<open>
  The \<^verbatim>\<open>try\<close> block of \<^verbatim>\<open>send_parcel\<close>, for the locker at position \<open>i\<close>. A
  \<open>LockerError\<close> of \<open>put_parcel\<close> is caught and returned as a message. Nothing else in
  the block raises here, so the clause \<^verbatim>\<open>except Exception\<close> has no case.
\<close>

definition send_parcel_try ::
  "Postomat \<Rightarrow> nat \<Rightarrow> ref \<Rightarrow> time \<Rightarrow> (bool \<times> message) \<times> Postomat" where
  "send_parcel_try s i r now =
     (case put_parcel (lockers s ! i) r (parcel_heap s) now of
        Inl e \<Rightarrow> ((False, MsgLockerError e), s)
      | Inr (l', h') \<Rightarrow>
          let s1 = s\<lparr>lockers := (lockers s)[i := l'], parcel_heap := h'\<rparr>;
              p = h' r;
              s2 = s1\<lparr>parcels := AList.update (tracking_number p) r (parcels s1)\<rparr>;
              s3 = snd (notify_recipient_internal s2 (recipient p) r
                     (ArrivedAtAddress (tracking_number p) (address s2) (number l')) now)
          in ((True, MsgSentToLocker (tracking_number p) (number l')), s3))"

definition send_parcel ::
  "Postomat \<Rightarrow> ref \<Rightarrow> string \<Rightarrow> time \<Rightarrow> (bool \<times> message) \<times> Postomat" where
  "send_parcel s r user_id now =
     (let (security_check, s1) = check_security s user_id ''send'' now
      in if \<not> fst security_check then ((False, snd security_check), s1)
         else if \<not> is_operational s1 then ((False, MsgTemporarilyNotWorking), s1)
         else if map_of (parcels s1) (tracking_number (parcel_heap s1 r)) \<noteq> None
           then ((False, MsgAlreadyInPostomat (tracking_number (parcel_heap s1 r))), s1)
         else
           (case find_available_locker s1 (parcel_size (parcel_heap s1 r)) of
              None \<Rightarrow> ((False, MsgNoFreeLockerOfSize), s1)
            | Some i \<Rightarrow> send_parcel_try s1 i r now))"

subsection \<open>Receiving\<close>

text \<open>
  The loop \<^verbatim>\<open>for l in self.lockers: if l.number == parcel.locker_number\<close>: the position of
  the first locker with that number (\<^verbatim>\<open>locker_number\<close> may be \<^verbatim>\<open>None\<close>, equal to no number).
\<close>

fun find_locker_by_number :: "Locker list \<Rightarrow> int option \<Rightarrow> nat option" where
  "find_locker_by_number [] n = None"
| "find_locker_by_number (l # ls) n =
     (if Some (number l) = n then Some 0
      else map_option Suc (find_locker_by_number ls n))"

text \<open>
  The \<^verbatim>\<open>try\<close> block of \<^verbatim>\<open>receive_parcel\<close>, for the locker at position \<open>i\<close>. Only
  \<^verbatim>\<open>LockerError\<close> is caught: \<^verbatim>\<open>received_parcel.deliver()\<close> on \<^verbatim>\<open>None\<close> is an
  \<^verbatim>\<open>AttributeError\<close> that leaves the call, after the locker has been emptied.
\<close>

definition receive_parcel_try ::
  "Postomat \<Rightarrow> nat \<Rightarrow> string \<Rightarrow> time \<Rightarrow>
     (PyError + (bool \<times> message \<times> ref option)) \<times> Postomat" where
  "receive_parcel_try s i tracking now =
     (case open_locker (lockers s ! i) of
        Inl e \<Rightarrow> (Inr (False, MsgReceiveError e, None), s)
      | Inr _ \<Rightarrow>
         (case take_parcel (lockers s ! i) of
            Inl e \<Rightarrow> (Inr (False, MsgReceiveError e, None), s)
          | Inr (received_parcel, l') \<Rightarrow>
              let s1 = s\<lparr>lockers := (lockers s)[i := l']\<rparr>
              in (case received_parcel of
                    None \<Rightarrow> (Inl AttributeError, s1)
                  | Some r \<Rightarrow>
                      let s2 = s1\<lparr>parcel_heap := (parcel_heap s1)(r := deliver (parcel_heap s1 r) now)\<rparr>;
                          s3 = s2\<lparr>parcels := AList.delete tracking (parcels s2)\<rparr>
                      in (Inr (True, MsgReceived tracking, Some r), s3))))"

definition receive_parcel ::
  "Postomat \<Rightarrow> string \<Rightarrow> Person \<Rightarrow> string \<Rightarrow> time \<Rightarrow>
     (PyError + (bool \<times> message \<times> ref option)) \<times> Postomat" where
  "receive_parcel s tracking rcp user_id now =
     (let (security_check, s1) = check_security s user_id ''receive'' now
      in if \<not> fst security_check then (Inr (False, snd security_check, None), s1)
         else if \<not> is_operational s1 then (Inr (False, MsgTemporarilyNotWorking, None), s1)
         else
           (case map_of (parcels s1) tracking of
              None \<Rightarrow> (Inr (False, MsgNotFound tracking, None), s1)
            | Some r \<Rightarrow>
                if person_id (recipient (parcel_heap s1 r)) \<noteq> person_id rcp then
                  (Inr (False, MsgNoRightsToReceive, None),
                   log_security_alert s1 ''unauthorized_access''
                     (AttemptByNonRecipient tracking) now)
                else if status (parcel_heap s1 r) \<noteq> IN_POSTOMAT then
                  (Inr (False, MsgNotReady (status (parcel_heap s1 r)), None), s1)
                else if is_expired (parcel_heap s1 r) now then
                  (Inr (False, MsgStorageExpired, None),
                   s1\<lparr>parcel_heap := (parcel_heap s1)(r := (parcel_heap s1 r)\<lparr>status := EXPIRED\<rparr>)\<rparr>)
                else
                  (case find_locker_by_number (lockers s1) (locker_number (parcel_heap s1 r)) of
                     None \<Rightarrow> (Inr (False, MsgLockerNotFound, None), s1)
                   | Some i \<Rightarrow> receive_parcel_try s1 i tracking now)))"

subsection \<open>Public notification\<close>

definition notify_recipient ::
  "Postomat \<Rightarrow> string \<Rightarrow> string \<Rightarrow> string \<Rightarrow> time \<Rightarrow> (bool \<times> message) \<times> Postomat" where
  "notify_recipient s tracking custom_message user_id now =
     (let (security_check, s1) = check_security s user_id ''notify'' now
      in if \<not> fst security_check then ((False, snd security_check), s1)
         else
           (case map_of (parcels s1) tracking of
              None \<Rightarrow> ((False, MsgNotFound tracking), s1)
            | Some r \<Rightarrow>
                let p = parcel_heap s1 r;
                    msg = (if custom_message \<noteq> [] then CustomText custom_message
                           else Reminder tracking);
                    (notification, s2) = notify_recipient_internal s1 (recipient p) r msg now
                in (case notification of
                      Some n \<Rightarrow>
                        if is_sent n then ((True, MsgNotificationSent (name (recipient p))), s2)
                        else ((False, MsgNotificationFailed), s2)
                    | None \<Rightarrow> ((False, MsgNotificationFailed), s2))))"

subsection \<open>Maintenance\<close>

text \<open>
  The repair loop of \<^verbatim>\<open>perform_maintenance\<close>. \<open>rnd k\<close> is the outcome of the test
  \<^verbatim>\<open>random.random() < 0.85\<close> at the \<open>k\<close>-th call of \<^verbatim>\<open>random.random()\<close> of this run; one
  call is made for each locker found non-functional.
\<close>

fun repair_loop ::
  "Locker list \<Rightarrow> (nat \<Rightarrow> bool) \<Rightarrow> nat \<Rightarrow> time \<Rightarrow> Report \<Rightarrow> Locker list \<times> Report" where
  "repair_loop [] rnd k now report = ([], report)"
| "repair_loop (l # ls) rnd k now report =
     (if \<not> is_functional l then
        (if rnd k then
           (let (ls', report') =
                  repair_loop ls rnd (Suc k) now
                    (report\<lparr>lockers_repaired := lockers_repaired report + 1,
                            issues := issues report @ [Repaired (number l)]\<rparr>)
            in (repair l now # ls', report'))
         else
           (let (ls', report') =
                  repair_loop ls rnd (Suc k) now
                    (report\<lparr>failed_repairs := failed_repairs report + 1,
                            issues := issues report @ [NeedsReplacement (number l)]\<rparr>)
            in (l # ls', report')))
      else
        (let (ls', report') = repair_loop ls rnd k now report
         in (l\<lparr>last_maintenance := Some now\<rparr> # ls', report')))"

definition perform_maintenance ::
  "Postomat \<Rightarrow> string \<Rightarrow> (nat \<Rightarrow> bool) \<Rightarrow> time \<Rightarrow> PyError + (Report \<times> Postomat)" where
  "perform_maintenance s tech rnd now =
     (if tech = [] then Inl ValueError
      else
        let broken = filter (\<lambda>l. \<not> is_functional l) (lockers s);
            report0 = \<lparr>report_timestamp = now, technician = tech,
                       lockers_checked = int (length (lockers s)),
                       broken_before = int (length broken),
                       broken_after = 0, lockers_repaired = 0, failed_repairs = 0,
                       issues = map (\<lambda>l. WasBroken (number l)) broken\<rparr>;
            (ls', report1) = repair_loop (lockers s) rnd 0 now report0;
            report2 = report1\<lparr>broken_after :=
                        int (length (filter (\<lambda>l. \<not> is_functional l) ls'))\<rparr>
        in Inr (report2, s\<lparr>lockers := ls', maintenance_log := maintenance_log s @ [report2]\<rparr>))"

text \<open>
  \<^verbatim>\<open>random.choice\<close> over the candidate lockers: \<open>k\<close> is the entropy it draws, reduced to
  an index of the candidate list.
\<close>

definition break_random_locker ::
  "Postomat \<Rightarrow> nat \<Rightarrow> time \<Rightarrow> (bool \<times> message) \<times> Postomat" where
  "break_random_locker s k now =
     (let functional_lockers =
            filter (\<lambda>i. is_functional (lockers s ! i) \<and> \<not> is_occupied (lockers s ! i))
              [0..<length (lockers s)]
      in if functional_lockers = [] then ((False, MsgNoLockersToBreak), s)
         else
           let i = functional_lockers ! (k mod length functional_lockers);
               l = (lockers s ! i)\<lparr>is_functional := False\<rparr>;
               s1 = s\<lparr>lockers := (lockers s)[i := l]\<rparr>
           in ((True, MsgLockerBroken (number l)),
               log_security_alert s1 ''manual_failure'' (LockerForciblyBroken (number l)) now))"

definition reset_security :: "Postomat \<Rightarrow> (bool \<times> message) \<times> Postomat" where
  "reset_security s =
     ((True, MsgSecurityReset),
      s\<lparr>is_operational := True, security_alerts := [], user_operations := Map.empty\<rparr>)"

subsection \<open>Expiry sweep\<close>

text \<open>
  The sweep iterates over a snapshot of the index. The notification goes to a
  \<^verbatim>\<open>Recipient\<close> rebuilt from the sender's name, phone and email, which are already in normal
  form, so it has the sender's identifier: it is the \<open>Person\<close> part of the sender.
\<close>

fun check_expired_loop ::
  "(string \<times> ref) list \<Rightarrow> Postomat \<Rightarrow> time \<Rightarrow> ref list \<times> Postomat" where
  "check_expired_loop [] s now = ([], s)"
| "check_expired_loop ((tracking, r) # rest) s now =
     (if is_expired (parcel_heap s r) now \<and> status (parcel_heap s r) = IN_POSTOMAT then
        (let s1 = s\<lparr>parcel_heap := (parcel_heap s)(r := (parcel_heap s r)\<lparr>status := EXPIRED\<rparr>)\<rparr>;
             s2 = snd (notify_recipient_internal s1
                         (Person.truncate (sender (parcel_heap s1 r))) r
                         (NotCollected tracking) now);
             (expired, s3) = check_expired_loop rest s2 now
         in (r # expired, s3))
      else check_expired_loop rest s now)"

definition check_expired_parcels :: "Postomat \<Rightarrow> time \<Rightarrow> ref list \<times> Postomat" where
  "check_expired_parcels s now = check_expired_loop (parcels s) s now"

subsection \<open>Runs of the public operations\<close>

datatype operation =
    Send ref string time
  | Receive string Person string time
  | Notify string string string time
  | Maintain string "nat \<Rightarrow> bool" time
  | BreakRandom nat time
  | ResetSecurity
  | CheckExpired time

text \<open>
  The station state after one public call. A call that raises leaves the state as the
  source leaves it at the point of the raise.
\<close>

fun step :: "Postomat \<Rightarrow> operation \<Rightarrow> Postomat" where
  "step s (Send r user_id now) = snd (send_parcel s r user_id now)"
| "step s (Receive tracking rcp user_id now) = snd (receive_parcel s tracking rcp user_id now)"
| "step s (Notify tracking msg user_id now) = snd (notify_recipient s tracking msg user_id now)"
| "step s (Maintain tech rnd now) =
     (case perform_maintenance s tech rnd now of Inl e \<Rightarrow> s | Inr (report, s') \<Rightarrow> s')"
| "step s (BreakRandom k now) = snd (break_random_locker s k now)"
| "step s ResetSecurity = snd (reset_security s)"
| "step s (CheckExpired now) = snd (check_expired_parcels s now)"

definition run :: "Postomat \<Rightarrow> operation list \<Rightarrow> Postomat" where
  "run s ops = foldl step s ops"

section \<open>Tracking codes\<close>

text \<open>
  A Python \<^verbatim>\<open>str\<close> is a list of characters, read as code points below 256. Among these
  the decimal digits (\<^verbatim>\<open>\d\<close>, \<^verbatim>\<open>str(d)\<close> for \<open>0 \<le> d \<le> 9\<close>) are \<^verbatim>\<open>0\<close> to \<^verbatim>\<open>9\<close>.
\<close>

definition is_digit :: "char \<Rightarrow> bool" where
  "is_digit c \<longleftrightarrow> c \<in> set ''0123456789''"

definition str_digit :: "nat \<Rightarrow> char" where
  "str_digit d = ''0123456789'' ! d"

text \<open>
  The random source is a sequence \<open>rng\<close> of raw draws, read at a position that advances
  by one with each call: \<^verbatim>\<open>random.choice(xs)\<close> reduces its draw to an index of \<open>xs\<close>,
  \<^verbatim>\<open>random.randint(0, 9)\<close> to a digit. One attempt of the loop reads eleven draws.
\<close>

definition TRACKING_PREFIXES :: "string list" where
  "TRACKING_PREFIXES = [''ABC'', ''XYZ'', ''TRK'', ''PKG'', ''BOX'', ''SHP'', ''DLV'', ''POS'']"

definition random_choice :: "nat \<Rightarrow> 'a list \<Rightarrow> 'a" where
  "random_choice draw xs = xs ! (draw mod length xs)"

definition random_randint_0_9 :: "nat \<Rightarrow> nat" where
  "random_randint_0_9 draw = draw mod 10"

definition tracking_candidate :: "(nat \<Rightarrow> nat) \<Rightarrow> nat \<Rightarrow> string" where
  "tracking_candidate rng k =
     (let prefix = random_choice (rng k) TRACKING_PREFIXES;
          numbers = map (\<lambda>j. str_digit (random_randint_0_9 (rng (k + 1 + j)))) [0..<10]
      in prefix @ numbers)"

text \<open>
  The loop \<^verbatim>\<open>while True\<close> of \<^verbatim>\<open>_generate_unique_tracking\<close>; the class attribute
  \<^verbatim>\<open>_existing_trackings\<close> is passed in and returned. The value \<open>None\<close> is a loop that
  never returns.
\<close>

partial_function (option) generate_unique_tracking ::
  "(nat \<Rightarrow> nat) \<Rightarrow> nat \<Rightarrow> string set \<Rightarrow> (string \<times> nat \<times> string set) option" where
  "generate_unique_tracking rng k existing =
     (let tracking = tracking_candidate rng k
      in if tracking \<notin> existing
         then Some (tracking, k + 11, insert tracking existing)
         else generate_unique_tracking rng (k + 11) existing)"

text \<open>\<open>n\<close> generations in sequence.\<close>

fun generate_many ::
  "nat \<Rightarrow> (nat \<Rightarrow> nat) \<Rightarrow> nat \<Rightarrow> string set \<Rightarrow> (string list \<times> nat \<times> string set) option" where
  "generate_many 0 rng k existing = Some ([], k, existing)"
| "generate_many (Suc n) rng k existing =
     (case generate_unique_tracking rng k existing of
        None \<Rightarrow> None
      | Some (t, k', existing') \<Rightarrow>
          (case generate_many n rng k' existing' of
             None \<Rightarrow> None
           | Some (ts, k'', existing'') \<Rightarrow> Some (t # ts, k'', existing'')))"

text \<open>A prefix of the fixed set followed by exactly ten decimal digits.\<close>

definition tracking_format :: "string \<Rightarrow> bool" where
  "tracking_format t \<longleftrightarrow>
     take 3 t \<in> set TRACKING_PREFIXES \<and> length t = 13 \<and> list_all is_digit (drop 3 t)"

section \<open>Phone validation\<close>

text \<open>
  The whitespace class \<^verbatim>\<open>\s\<close> of a \<^verbatim>\<open>str\<close> pattern, among the code points below 256.
\<close>

definition is_space :: "char \<Rightarrow> bool" where
  "is_space c \<longleftrightarrow>
     c \<in> set [CHR 0x09, CHR 0x0A, CHR 0x0B, CHR 0x0C, CHR 0x0D, CHR 0x1C, CHR 0x1D,
              CHR 0x1E, CHR 0x1F, CHR 0x20, CHR 0x85, CHR 0xA0]"

text \<open>\<^verbatim>\<open>re.sub(r'[\s\-\(\)]', '', phone)\<close>.\<close>

definition clean_phone :: "string \<Rightarrow> string" where
  "clean_phone phone_str =
     filter (\<lambda>c. \<not> (is_space c \<or> c = CHR ''-'' \<or> c = CHR ''('' \<or> c = CHR '')'')) phone_str"

text \<open>
  \<^verbatim>\<open>re.match\<close> of a pattern \<^verbatim>\<open>^lit\d{n}$\<close>: the literal, then exactly \<open>n\<close> digits, up to
  the end of the string or up to a newline that ends the string.
\<close>

definition literal_then_digits :: "string \<Rightarrow> nat \<Rightarrow> string \<Rightarrow> bool" where
  "literal_then_digits lit n s \<longleftrightarrow>
     take (length lit) s = lit \<and> length s = length lit + n \<and>
     list_all is_digit (drop (length lit) s)"

definition re_match :: "string \<Rightarrow> nat \<Rightarrow> string \<Rightarrow> bool" where
  "re_match lit n s \<longleftrightarrow>
     literal_then_digits lit n s \<or>
     (s \<noteq> [] \<and> last s = CHR 0x0A \<and> literal_then_digits lit n (butlast s))"

definition BELARUSIAN_OPERATORS :: "string list" where
  "BELARUSIAN_OPERATORS = [''24'', ''25'', ''29'', ''33'', ''44'']"

definition validate_phone :: "string \<Rightarrow> bool" where
  "validate_phone phone_str =
     (let cleaned = clean_phone phone_str in
      if re_match ''+375'' 9 cleaned then
        re_match ''+375'' 9 cleaned
      else if re_match ''80'' 9 cleaned then
        (if take 2 (drop 2 cleaned) \<notin> set BELARUSIAN_OPERATORS then False
         else re_match ''+375'' 9 (''+375'' @ drop 2 cleaned))
      else if re_match ''375'' 9 cleaned then
        (if take 2 (drop 3 cleaned) \<notin> set BELARUSIAN_OPERATORS then False
         else re_match ''+375'' 9 (''+'' @ cleaned))
      else if re_match ''8'' 9 cleaned \<and> length cleaned = 10 then
        (if take 2 (drop 1 cleaned) \<notin> set BELARUSIAN_OPERATORS then False
         else re_match ''+375'' 9 (''+375'' @ drop 1 cleaned))
      else False)"

definition normalize_phone :: "string \<Rightarrow> string" where
  "normalize_phone phone_str =
     (let cleaned = clean_phone phone_str in
      if re_match ''+375'' 9 cleaned then cleaned
      else if re_match ''80'' 9 cleaned then ''+375'' @ drop 2 cleaned
      else if re_match ''8'' 9 cleaned \<and> length cleaned = 10 then ''+375'' @ drop 1 cleaned
      else if re_match ''375'' 9 cleaned then ''+'' @ cleaned
      else cleaned)"

section \<open>Predicates of the specification\<close>

text \<open>
  The allocation rule as the specification words it: a locker fits a size when it is
  unoccupied, functional and at least as large; the first fit is the first such locker in
  bank order.
\<close>

definition locker_fits :: "Locker \<Rightarrow> ParcelSize \<Rightarrow> bool" where
  "locker_fits l sz \<longleftrightarrow>
     \<not> is_occupied l \<and> is_functional l \<and> size_order sz \<le> size_order (locker_size l)"

definition first_fit :: "Locker list \<Rightarrow> ParcelSize \<Rightarrow> nat \<Rightarrow> bool" where
  "first_fit ls sz i \<longleftrightarrow>
     i < length ls \<and> locker_fits (ls ! i) sz \<and> (\<forall>j<i. \<not> locker_fits (ls ! j) sz)"

text \<open>The number of non-functional lockers of a bank, as the report counts them.\<close>

definition broken_count :: "Locker list \<Rightarrow> int" where
  "broken_count ls = int (length (filter (\<lambda>l. \<not> is_functional l) ls))"

text \<open>The alerts of one type in the alert log.\<close>

definition alerts_of_type :: "string \<Rightarrow> Postomat \<Rightarrow> Alert list" where
  "alerts_of_type ty s = filter (\<lambda>a. alert_type a = ty) (security_alerts s)"

section \<open>The station invariant\<close>

text \<open>
  What holds of a locker of the bank: an occupied locker is functional; it is occupied
  exactly when it holds a parcel; and the parcel it holds carries the locker's number, is
  in the station or expired, and is indexed under its tracking code. The bank invariant
  adds that locker numbers are distinct and that every indexed parcel is indexed under
  its own tracking code and held by some locker.
\<close>

definition holds_ok :: "store \<Rightarrow> (string \<times> ref) list \<Rightarrow> Locker \<Rightarrow> bool" where
  "holds_ok h ps l \<longleftrightarrow>
     (is_occupied l \<longrightarrow> is_functional l) \<and>
     (is_occupied l \<longleftrightarrow> current_parcel l \<noteq> None) \<and>
     (\<forall>r. current_parcel l = Some r \<longrightarrow>
        locker_number (h r) = Some (number l) \<and>
        (status (h r) = IN_POSTOMAT \<or> status (h r) = EXPIRED) \<and>
        map_of ps (tracking_number (h r)) = Some r)"

definition bank_inv :: "store \<Rightarrow> Locker list \<Rightarrow> (string \<times> ref) list \<Rightarrow> bool" where
  "bank_inv h ls ps \<longleftrightarrow>
     (\<forall>j<length ls. holds_ok h ps (ls ! j)) \<and>
     distinct (map number ls) \<and>
     (\<forall>t r. map_of ps t = Some r \<longrightarrow>
        tracking_number (h r) = t \<and> (\<exists>j<length ls. current_parcel (ls ! j) = Some r))"

definition station_inv :: "Postomat \<Rightarrow> bool" where
  "station_inv s \<longleftrightarrow> bank_inv (parcel_heap s) (lockers s) (parcels s)"

text \<open>What maintenance and a forced failure may change of a locker.\<close>

definition locker_serviced :: "Locker \<Rightarrow> Locker \<Rightarrow> bool" where
  "locker_serviced l l' \<longleftrightarrow>
     number l' = number l \<and> is_occupied l' = is_occupied l \<and>
     current_parcel l' = current_parcel l \<and>
     (is_occupied l \<and> is_functional l \<longrightarrow> is_functional l')"

section \<open>Concrete stations\<close>

text \<open>Small concrete persons, parcels and stations, used to run the operations.\<close>

definition person_a :: Person where
  "person_a = \<lparr>name = ''Anna'', phone = ''+375291234567'', email = ''anna@example.by'',
                person_id = ''0a1b2c3d4e''\<rparr>"

definition person_b :: Person where
  "person_b = \<lparr>name = ''Boris'', phone = ''+375331234567'', email = ''boris@example.by'',
                person_id = ''99887766aa''\<rparr>"

definition sender_c :: Sender where
  "sender_c = \<lparr>name = ''Clara'', phone = ''+375441234567'', email = ''clara@example.by'',
                person_id = ''5f5f5f5f5f'', sender_address = ''Minsk, Lenina 1''\<rparr>"

definition new_parcel :: "string \<Rightarrow> ParcelSize \<Rightarrow> Parcel" where
  "new_parcel tr sz =
     \<lparr>tracking_number = tr, sender = sender_c, recipient = person_a, parcel_size = sz,
      description = ''books'', status = CREATED, created_at = 0, placed_at = None,
      delivered_at = None, locker_number = None, storage_days = 3, storage_until = None\<rparr>"

definition heap0 :: store where
  "heap0 = (\<lambda>r. new_parcel ''ABC0000000000'' SMALL)
             (1 := new_parcel ''TRK0000000001'' MEDIUM,
              2 := new_parcel ''PKG0000000002'' LARGE)"

definition station0 :: "SecurityLevel \<Rightarrow> Postomat" where
  "station0 level =
     \<lparr>postomat_id = ''P1'', address = ''Minsk'', total_lockers = 3,
      security_level = level, is_operational = True, security_alerts = [],
      user_operations = Map.empty, lockers = create_lockers [SMALL, LARGE, MEDIUM],
      parcels = [], notifications = [], maintenance_log = [],
      parcel_heap = heap0\<rparr>"

definition busy_station :: "SecurityLevel \<Rightarrow> Postomat" where
  "busy_station level = (station0 level)\<lparr>user_operations := [''user'' \<mapsto> 50]\<rparr>"

definition small_station :: Postomat where
  "small_station = (station0 LOW)\<lparr>lockers := create_lockers [SMALL, SMALL]\<rparr>"

definition sent_station :: Postomat where
  "sent_station = snd (send_parcel (station0 MEDIUM_LEVEL) 1 ''user'' 7)"

definition broken_station :: Postomat where
  "broken_station = snd (break_random_locker (station0 LOW) 0 5)"

definition locked_station :: Postomat where
  "locked_station =
     snd (receive_parcel (snd (send_parcel (station0 HIGH) 1 ''user'' 7))
            ''TRK0000000001'' person_b ''visitor'' 8)"

definition expired_by_sweep :: Postomat where
  "expired_by_sweep =
     run (station0 MEDIUM_LEVEL) [Send 1 ''user'' 7, CheckExpired 259200000008]"

definition expired_by_receive :: Postomat where
  "expired_by_receive =
     run (station0 MEDIUM_LEVEL)
       [Send 1 ''user'' 7, Receive ''TRK0000000001'' person_a ''user'' 259200000008]"

definition sent_and_broken :: Postomat where
  "sent_and_broken = run (station0 LOW) [Send 1 ''user'' 7, BreakRandom 0 8]"

text \<open>A random source whose first two attempts draw the same code.\<close>

definition sticky_rng :: "nat \<Rightarrow> nat" where
  "sticky_rng i = (if i < 22 then 0 else i)"

section \<open>Expiry query\<close>

text \<open>
  C5. For every parcel, \<open>is_expired\<close> is false when no storage deadline is set, false when
  the current time equals the deadline, and true exactly when the current time is strictly
  later than the deadline. (Every parcel whose deadline is \<open>x\<close> is equal to itself with
  \<open>storage_until := x\<close>.)
\<close>

theorem is_expired_boundary:
  "is_expired (p\<lparr>storage_until := None\<rparr>) now = False \<and>
   is_expired (p\<lparr>storage_until := Some now\<rparr>) now = False \<and>
   is_expired (p\<lparr>storage_until := Some d\<rparr>) now = (d < now)"
  by (simp add: is_expired_def)

section \<open>Running the concrete stations\<close>

lemmas example_defs =
  station0_def heap0_def new_parcel_def person_a_def person_b_def sender_c_def
  create_lockers_def new_locker_def

lemmas station_defs =
  check_security_def log_security_alert_def send_parcel_def send_parcel_try_def
  put_parcel_def place_in_locker_def notify_recipient_internal_def
  find_available_locker_def timedelta_days_def Let_def

lemma sent_station_eval:
  "parcels sent_station = [(''TRK0000000001'', 1)]"
  "map (\<lambda>l. (number l, is_occupied l, current_parcel l)) (lockers sent_station) =
     [(1, False, None), (2, True, Some 1), (3, False, None)]"
  "status (parcel_heap sent_station 1) = IN_POSTOMAT"
  "locker_number (parcel_heap sent_station 1) = Some 2"
  "storage_until (parcel_heap sent_station 1) = Some 259200000007"
  by (simp_all add: sent_station_def example_defs station_defs)

lemma broken_station_eval:
  "map (\<lambda>l. (number l, is_functional l)) (lockers broken_station) =
     [(1, False), (2, True), (3, True)]"
  by (simp add: broken_station_def break_random_locker_def example_defs station_defs)

section \<open>Security gate\<close>

text \<open>
  C3. When the gate runs on an operational station and the user's count, after this call's
  increment, exceeds 50, the gate appends one \<open>suspicious_activity\<close> alert; under level
  \<open>HIGH\<close> the gate denies, the station is no longer operational, and \<open>send\<close>,
  \<open>receive\<close> and \<open>notify\<close> return the denial; under \<open>LOW\<close> and \<open>MEDIUM\<close> the gate
  admits the call and the station stays operational. Up to the threshold nothing is logged
  and the call is admitted.
\<close>

theorem check_security_threshold:
  assumes "is_operational s"
    and "cnt = (case user_operations s u of None \<Rightarrow> 0 | Some c \<Rightarrow> c) + 1"
  shows "(cnt > 50 \<longrightarrow>
            security_alerts (snd (check_security s u opn now)) =
              security_alerts s @
                [\<lparr>alert_timestamp = now, alert_type = ''suspicious_activity'',
                  alert_description = UserPerformedOperations u cnt\<rparr>] \<and>
            (security_level s = HIGH \<longrightarrow>
               fst (check_security s u opn now) = (False, MsgSuspiciousActivityBlocked) \<and>
               \<not> is_operational (snd (check_security s u opn now)) \<and>
               fst (send_parcel s r u now) = (False, MsgSuspiciousActivityBlocked) \<and>
               fst (receive_parcel s t rcp u now) = Inr (False, MsgSuspiciousActivityBlocked, None) \<and>
               fst (notify_recipient s t m u now) = (False, MsgSuspiciousActivityBlocked)) \<and>
            (security_level s \<noteq> HIGH \<longrightarrow>
               fst (check_security s u opn now) = (True, MsgOK) \<and>
               is_operational (snd (check_security s u opn now)))) \<and>
         (cnt \<le> 50 \<longrightarrow>
            security_alerts (snd (check_security s u opn now)) = security_alerts s \<and>
            fst (check_security s u opn now) = (True, MsgOK) \<and>
            is_operational (snd (check_security s u opn now))) \<and>
         user_operations (snd (check_security s u opn now)) u = Some cnt"
  using assms
  by (auto simp: check_security_def log_security_alert_def Let_def send_parcel_def
      receive_parcel_def notify_recipient_def split: option.splits)

theorem check_security_threshold_witness:
  "is_operational (busy_station HIGH) \<and>
   fst (check_security (busy_station HIGH) ''user'' ''send'' 7) = (False, MsgSuspiciousActivityBlocked) \<and>
   \<not> is_operational (snd (check_security (busy_station HIGH) ''user'' ''send'' 7)) \<and>
   length (security_alerts (snd (check_security (busy_station HIGH) ''user'' ''send'' 7))) = 1 \<and>
   fst (send_parcel (busy_station HIGH) 0 ''user'' 7) = (False, MsgSuspiciousActivityBlocked) \<and>
   is_operational (busy_station LOW) \<and>
   fst (check_security (busy_station LOW) ''user'' ''send'' 7) = (True, MsgOK) \<and>
   is_operational (snd (check_security (busy_station LOW) ''user'' ''send'' 7)) \<and>
   length (security_alerts (snd (check_security (busy_station LOW) ''user'' ''send'' 7))) = 1 \<and>
   is_operational (station0 HIGH) \<and>
   fst (check_security (station0 HIGH) ''user'' ''send'' 7) = (True, MsgOK) \<and>
   security_alerts (snd (check_security (station0 HIGH) ''user'' ''send'' 7)) = []"
  using check_security_threshold [of "busy_station HIGH" 51 "''user''" "''send''" 7 0 "''T''" person_a "''''"]
        check_security_threshold [of "busy_station LOW" 51 "''user''" "''send''" 7 0 "''T''" person_a "''''"]
        check_security_threshold [of "station0 HIGH" 1 "''user''" "''send''" 7 0 "''T''" person_a "''''"]
  by (simp add: busy_station_def station0_def)

section \<open>Sending\<close>

lemma find_loop_None:
  "find_available_locker_loop ls sz = None \<longleftrightarrow> (\<forall>l\<in>set ls. \<not> locker_fits l sz)"
  by (induction ls) (auto simp: locker_fits_def)

lemma find_loop_Some:
  "find_available_locker_loop ls sz = Some i \<longleftrightarrow> first_fit ls sz i"
proof (induction ls arbitrary: i)
  case Nil
  then show ?case by (simp add: first_fit_def)
next
  case (Cons l ls)
  show ?case
  proof (cases "locker_fits l sz")
    case True
    then have "find_available_locker_loop (l # ls) sz = Some 0"
      by (simp add: locker_fits_def)
    moreover have "first_fit (l # ls) sz i \<longleftrightarrow> i = 0"
      using True by (cases i) (auto simp: first_fit_def)
    ultimately show ?thesis by auto
  next
    case False
    then have eq: "find_available_locker_loop (l # ls) sz =
                   map_option Suc (find_available_locker_loop ls sz)"
      by (auto simp: locker_fits_def)
    show ?thesis
    proof (cases i)
      case 0
      then show ?thesis using False eq by (auto simp: first_fit_def)
    next
      case (Suc k)
      have "first_fit (l # ls) sz (Suc k) \<longleftrightarrow> first_fit ls sz k"
        using False by (auto simp: first_fit_def less_Suc_eq_0_disj)
      then show ?thesis using Suc eq Cons.IH [of k] by auto
    qed
  qed
qed

lemma check_security_frame:
  "lockers (snd (check_security s u opn now)) = lockers s"
  "parcels (snd (check_security s u opn now)) = parcels s"
  "parcel_heap (snd (check_security s u opn now)) = parcel_heap s"
  "security_level (snd (check_security s u opn now)) = security_level s"
  "address (snd (check_security s u opn now)) = address s"
  by (auto simp: check_security_def log_security_alert_def Let_def)

lemma check_security_admits_operational:
  "fst (fst (check_security s u opn now)) \<Longrightarrow> is_operational (snd (check_security s u opn now))"
  by (auto simp: check_security_def log_security_alert_def Let_def split: if_splits)

lemma send_parcel_try_fit:
  assumes "i < length (lockers s)" "locker_fits (lockers s ! i) (parcel_size (parcel_heap s r))"
  shows "fst (send_parcel_try s i r now) =
           (True, MsgSentToLocker (tracking_number (parcel_heap s r)) (number (lockers s ! i)))"
    and "lockers (snd (send_parcel_try s i r now)) =
           (lockers s)[i := (lockers s ! i)\<lparr>is_occupied := True, current_parcel := Some r\<rparr>]"
    and "parcels (snd (send_parcel_try s i r now)) =
           AList.update (tracking_number (parcel_heap s r)) r (parcels s)"
    and "parcel_heap (snd (send_parcel_try s i r now)) =
           (parcel_heap s)(r := place_in_locker (parcel_heap s r) (number (lockers s ! i)) now)"
  using assms
  by (auto simp: send_parcel_try_def put_parcel_def locker_fits_def Let_def
      notify_recipient_internal_def place_in_locker_def)

lemma send_parcel_admitted:
  assumes "fst (fst (check_security s u ''send'' now))"
    and "map_of (parcels s) (tracking_number (parcel_heap s r)) = None"
  shows "send_parcel s r u now =
     (case find_available_locker_loop (lockers s) (parcel_size (parcel_heap s r)) of
        None \<Rightarrow> ((False, MsgNoFreeLockerOfSize), snd (check_security s u ''send'' now))
      | Some i \<Rightarrow> send_parcel_try (snd (check_security s u ''send'' now)) i r now)"
  using assms check_security_admits_operational [OF assms(1)]
  by (simp add: send_parcel_def case_prod_unfold Let_def check_security_frame
      find_available_locker_def)

lemma send_parcel_no_fit:
  assumes "fst (fst (check_security s u ''send'' now))"
    and "map_of (parcels s) (tracking_number (parcel_heap s r)) = None"
    and "\<forall>l\<in>set (lockers s). \<not> locker_fits l (parcel_size (parcel_heap s r))"
  shows "send_parcel s r u now =
           ((False, MsgNoFreeLockerOfSize), snd (check_security s u ''send'' now))"
proof -
  have "find_available_locker_loop (lockers s) (parcel_size (parcel_heap s r)) = None"
    using assms(3) by (simp add: find_loop_None)
  then show ?thesis
    by (simp add: send_parcel_admitted [OF assms(1,2)])
qed

lemma send_parcel_fit:
  assumes "fst (fst (check_security s u ''send'' now))"
    and "map_of (parcels s) (tracking_number (parcel_heap s r)) = None"
    and "first_fit (lockers s) (parcel_size (parcel_heap s r)) i"
  shows "fst (send_parcel s r u now) =
           (True, MsgSentToLocker (tracking_number (parcel_heap s r)) (number (lockers s ! i)))"
    and "lockers (snd (send_parcel s r u now)) =
           (lockers s)[i := (lockers s ! i)\<lparr>is_occupied := True, current_parcel := Some r\<rparr>]"
    and "parcels (snd (send_parcel s r u now)) =
           AList.update (tracking_number (parcel_heap s r)) r (parcels s)"
    and "parcel_heap (snd (send_parcel s r u now)) =
           (parcel_heap s)(r := place_in_locker (parcel_heap s r) (number (lockers s ! i)) now)"
proof -
  let ?s1 = "snd (check_security s u ''send'' now)"
  have "find_available_locker_loop (lockers s) (parcel_size (parcel_heap s r)) = Some i"
    using assms(3) by (simp add: find_loop_Some)
  then have eq: "send_parcel s r u now = send_parcel_try ?s1 i r now"
    by (simp add: send_parcel_admitted [OF assms(1,2)])
  have i: "i < length (lockers ?s1)"
    and fit: "locker_fits (lockers ?s1 ! i) (parcel_size (parcel_heap ?s1 r))"
    using assms(3) by (simp_all add: first_fit_def check_security_frame)
  show "fst (send_parcel s r u now) =
           (True, MsgSentToLocker (tracking_number (parcel_heap s r)) (number (lockers s ! i)))"
    and "lockers (snd (send_parcel s r u now)) =
           (lockers s)[i := (lockers s ! i)\<lparr>is_occupied := True, current_parcel := Some r\<rparr>]"
    and "parcels (snd (send_parcel s r u now)) =
           AList.update (tracking_number (parcel_heap s r)) r (parcels s)"
    and "parcel_heap (snd (send_parcel s r u now)) =
           (parcel_heap s)(r := place_in_locker (parcel_heap s r) (number (lockers s ! i)) now)"
    using send_parcel_try_fit [OF i fit, of now]
    by (simp_all add: eq check_security_frame)
qed

text \<open>
  C2. A \<open>send\<close> that the security gate admits (which leaves the station operational) and
  whose tracking code is not in the index binds the parcel to the first locker in bank
  order that is unoccupied, functional and of size at least the parcel's: that locker, and
  no other, becomes occupied by the parcel, the parcel is indexed and placed. When no
  locker fits, \<open>send\<close> returns the capacity failure and lockers, index and parcel objects
  are unchanged.
\<close>

theorem send_parcel_first_fit:
  assumes "fst (fst (check_security s u ''send'' now))"
    and "map_of (parcels s) (tracking_number (parcel_heap s r)) = None"
  shows "((\<forall>l\<in>set (lockers s). \<not> locker_fits l (parcel_size (parcel_heap s r))) \<longrightarrow>
            fst (send_parcel s r u now) = (False, MsgNoFreeLockerOfSize) \<and>
            lockers (snd (send_parcel s r u now)) = lockers s \<and>
            parcels (snd (send_parcel s r u now)) = parcels s \<and>
            parcel_heap (snd (send_parcel s r u now)) = parcel_heap s) \<and>
         (first_fit (lockers s) (parcel_size (parcel_heap s r)) i \<longrightarrow>
            fst (send_parcel s r u now) =
              (True, MsgSentToLocker (tracking_number (parcel_heap s r)) (number (lockers s ! i))) \<and>
            lockers (snd (send_parcel s r u now)) =
              (lockers s)[i := (lockers s ! i)\<lparr>is_occupied := True, current_parcel := Some r\<rparr>] \<and>
            parcels (snd (send_parcel s r u now)) =
              AList.update (tracking_number (parcel_heap s r)) r (parcels s) \<and>
            parcel_heap (snd (send_parcel s r u now)) =
              (parcel_heap s)(r := place_in_locker (parcel_heap s r) (number (lockers s ! i)) now))"
  using send_parcel_no_fit [OF assms] send_parcel_fit [OF assms, of i]
  by (simp add: check_security_frame)

theorem send_parcel_first_fit_witness:
  "fst (fst (check_security (station0 MEDIUM_LEVEL) ''user'' ''send'' 7)) \<and>
   map_of (parcels (station0 MEDIUM_LEVEL))
     (tracking_number (parcel_heap (station0 MEDIUM_LEVEL) 1)) = None \<and>
   first_fit (lockers (station0 MEDIUM_LEVEL)) MEDIUM 1 \<and>
   fst (send_parcel (station0 MEDIUM_LEVEL) 1 ''user'' 7) =
     (True, MsgSentToLocker ''TRK0000000001'' 2) \<and>
   fst (fst (check_security small_station ''user'' ''send'' 7)) \<and>
   list_all (\<lambda>l. \<not> locker_fits l LARGE) (lockers small_station) \<and>
   fst (send_parcel small_station 2 ''user'' 7) = (False, MsgNoFreeLockerOfSize)"
  using send_parcel_first_fit [of "station0 MEDIUM_LEVEL" "''user''" 7 1 1]
        send_parcel_first_fit [of small_station "''user''" 7 2 0]
  by (simp add: small_station_def example_defs check_security_def first_fit_def locker_fits_def)

lemma send_parcel_denied:
  assumes "\<not> fst (fst (check_security s u ''send'' now))"
  shows "send_parcel s r u now =
           ((False, snd (fst (check_security s u ''send'' now))),
            snd (check_security s u ''send'' now))"
  using assms by (simp add: send_parcel_def case_prod_unfold Let_def)

lemma send_parcel_duplicate:
  assumes "fst (fst (check_security s u ''send'' now))"
    and "map_of (parcels s) (tracking_number (parcel_heap s r)) \<noteq> None"
  shows "send_parcel s r u now =
           ((False, MsgAlreadyInPostomat (tracking_number (parcel_heap s r))),
            snd (check_security s u ''send'' now))"
  using assms check_security_admits_operational [OF assms(1)]
  by (simp add: send_parcel_def case_prod_unfold Let_def check_security_frame)

lemma send_parcel_try_fault:
  "put_parcel (lockers s ! i) r (parcel_heap s) now = Inl e \<Longrightarrow>
   send_parcel_try s i r now = ((False, MsgLockerError e), s)"
  by (simp add: send_parcel_try_def)

text \<open>
  C7. Whenever \<open>send\<close> returns a failure, the index, the lockers and the parcel objects
  are as before the call; when it returns success, a locker that was free holds the
  parcel. A \<open>LockerError\<close> raised by \<open>put_parcel\<close> in the \<^verbatim>\<open>try\<close> block is returned as
  \<open>(False, message)\<close> with the station unchanged.
\<close>

theorem send_parcel_failure_keeps_index:
  "(\<not> fst (fst (send_parcel s r u now)) \<longrightarrow>
      parcels (snd (send_parcel s r u now)) = parcels s \<and>
      lockers (snd (send_parcel s r u now)) = lockers s \<and>
      parcel_heap (snd (send_parcel s r u now)) = parcel_heap s) \<and>
   (fst (fst (send_parcel s r u now)) \<longrightarrow>
      (\<exists>i<length (lockers s).
         \<not> is_occupied (lockers s ! i) \<and>
         is_occupied (lockers (snd (send_parcel s r u now)) ! i) \<and>
         current_parcel (lockers (snd (send_parcel s r u now)) ! i) = Some r)) \<and>
   (put_parcel (lockers s ! i) r (parcel_heap s) now = Inl e \<longrightarrow>
      send_parcel_try s i r now = ((False, MsgLockerError e), s))"
proof -
  let ?s1 = "snd (check_security s u ''send'' now)"
  let ?sz = "parcel_size (parcel_heap s r)"
  let ?res = "send_parcel s r u now"
  have main: "(\<not> fst (fst ?res) \<longrightarrow>
      parcels (snd ?res) = parcels s \<and> lockers (snd ?res) = lockers s \<and>
      parcel_heap (snd ?res) = parcel_heap s) \<and>
   (fst (fst ?res) \<longrightarrow>
      (\<exists>i<length (lockers s).
         \<not> is_occupied (lockers s ! i) \<and>
         is_occupied (lockers (snd ?res) ! i) \<and>
         current_parcel (lockers (snd ?res) ! i) = Some r))"
  proof (cases "fst (fst (check_security s u ''send'' now))")
    case False
    then show ?thesis
      by (simp add: send_parcel_denied check_security_frame)
  next
    case admitted: True
    show ?thesis
    proof (cases "map_of (parcels s) (tracking_number (parcel_heap s r)) = None")
      case False
      then show ?thesis
        using admitted by (simp add: send_parcel_duplicate check_security_frame)
    next
      case fresh: True
      show ?thesis
      proof (cases "find_available_locker_loop (lockers s) ?sz")
        case None
        then have "\<forall>l\<in>set (lockers s). \<not> locker_fits l ?sz"
          by (simp add: find_loop_None)
        then show ?thesis
          using send_parcel_no_fit [OF admitted fresh] by (simp add: check_security_frame)
      next
        case (Some k)
        then have ff: "first_fit (lockers s) ?sz k"
          by (simp add: find_loop_Some)
        then have k: "k < length (lockers s)" and free: "\<not> is_occupied (lockers s ! k)"
          by (simp_all add: first_fit_def locker_fits_def)
        from send_parcel_fit(1,2) [OF admitted fresh ff]
        have ok: "fst (fst ?res)"
          and ls: "lockers (snd ?res) =
                (lockers s)[k := (lockers s ! k)\<lparr>is_occupied := True, current_parcel := Some r\<rparr>]"
          by simp_all
        have "is_occupied (lockers (snd ?res) ! k) \<and>
              current_parcel (lockers (snd ?res) ! k) = Some r"
          using k by (simp add: ls)
        then show ?thesis using ok k free by blast
      qed
    qed
  qed
  show ?thesis using main send_parcel_try_fault [of s i r now e] by blast
qed

theorem send_parcel_failure_keeps_index_witness:
  "\<not> fst (fst (send_parcel sent_station 1 ''user'' 9)) \<and>
   fst (send_parcel sent_station 1 ''user'' 9) = (False, MsgAlreadyInPostomat ''TRK0000000001'') \<and>
   parcels (snd (send_parcel sent_station 1 ''user'' 9)) = parcels sent_station \<and>
   fst (fst (send_parcel (station0 MEDIUM_LEVEL) 1 ''user'' 7)) \<and>
   \<not> is_occupied (lockers (station0 MEDIUM_LEVEL) ! 1) \<and>
   current_parcel (lockers (snd (send_parcel (station0 MEDIUM_LEVEL) 1 ''user'' 7)) ! 1) = Some 1 \<and>
   put_parcel (lockers broken_station ! 0) 0 (parcel_heap broken_station) 9 = Inl (LockerBroken 1) \<and>
   send_parcel_try broken_station 0 0 9 = ((False, MsgLockerError (LockerBroken 1)), broken_station)"
proof -
  have dup: "fst (send_parcel sent_station 1 ''user'' 9) =
               (False, MsgAlreadyInPostomat ''TRK0000000001'')"
    by (simp add: sent_station_def example_defs station_defs)
  have ok: "fst (fst (send_parcel (station0 MEDIUM_LEVEL) 1 ''user'' 7))"
    by (simp add: example_defs station_defs)
  have fault: "put_parcel (lockers broken_station ! 0) 0 (parcel_heap broken_station) 9 =
                 Inl (LockerBroken 1)"
    by (simp add: broken_station_def break_random_locker_def example_defs station_defs)
  have bound: "current_parcel (lockers sent_station ! 1) = Some 1"
    "\<not> is_occupied (lockers (station0 MEDIUM_LEVEL) ! 1)"
    by (simp_all add: sent_station_def example_defs station_defs)
  show ?thesis
    using dup ok fault bound
      send_parcel_failure_keeps_index [of sent_station 1 "''user''" 9 0 "LockerBroken 1"]
      send_parcel_failure_keeps_index [of "station0 MEDIUM_LEVEL" 1 "''user''" 7 0 "LockerBroken 1"]
      send_parcel_failure_keeps_index [of broken_station 0 "''user''" 9 0 "LockerBroken 1"]
    by (auto simp: sent_station_def)
qed

section \<open>Maintenance\<close>

lemma broken_count_simps:
  "broken_count [] = 0"
  "broken_count (l # ls) = (if is_functional l then 0 else 1) + broken_count ls"
  by (simp_all add: broken_count_def)

lemma repair_loop_frame:
  "repair_loop ls rnd k now rep = (ls', rep') \<Longrightarrow>
   length ls' = length ls \<and>
   report_timestamp rep' = report_timestamp rep \<and> technician rep' = technician rep \<and>
   lockers_checked rep' = lockers_checked rep \<and> broken_before rep' = broken_before rep \<and>
   broken_after rep' = broken_after rep"
proof (induction ls arbitrary: k rep ls' rep')
  case Nil
  then show ?case by simp
next
  case (Cons l ls)
  then show ?case
    by (auto simp: Let_def split: if_splits prod.splits) (fastforce+)?
qed

lemma repair_loop_counts:
  "repair_loop ls rnd k now rep = (ls', rep') \<Longrightarrow>
   lockers_repaired rep' + failed_repairs rep' =
     lockers_repaired rep + failed_repairs rep + broken_count ls \<and>
   broken_count ls' = failed_repairs rep' - failed_repairs rep \<and>
   lockers_repaired rep \<le> lockers_repaired rep'"
proof (induction ls arbitrary: k rep ls' rep')
  case Nil
  then show ?case by (simp add: broken_count_simps)
next
  case (Cons l ls)
  show ?case
  proof (cases "is_functional l")
    case True
    obtain ls1 rep1 where r: "repair_loop ls rnd k now rep = (ls1, rep1)"
      by (cases "repair_loop ls rnd k now rep")
    with Cons.prems True have "ls' = l\<lparr>last_maintenance := Some now\<rparr> # ls1" "rep' = rep1"
      by simp_all
    then show ?thesis using Cons.IH [OF r] True by (simp add: broken_count_simps)
  next
    case False
    show ?thesis
    proof (cases "rnd k")
      case True
      let ?rep = "rep\<lparr>lockers_repaired := lockers_repaired rep + 1,
                      issues := issues rep @ [Repaired (number l)]\<rparr>"
      obtain ls1 rep1 where r: "repair_loop ls rnd (Suc k) now ?rep = (ls1, rep1)"
        by (cases "repair_loop ls rnd (Suc k) now ?rep")
      with Cons.prems False True have "ls' = repair l now # ls1" "rep' = rep1"
        by simp_all
      then show ?thesis using Cons.IH [OF r] False
        by (simp add: broken_count_simps repair_def)
    next
      case nr: False
      let ?rep = "rep\<lparr>failed_repairs := failed_repairs rep + 1,
                      issues := issues rep @ [NeedsReplacement (number l)]\<rparr>"
      obtain ls1 rep1 where r: "repair_loop ls rnd (Suc k) now ?rep = (ls1, rep1)"
        by (cases "repair_loop ls rnd (Suc k) now ?rep")
      with Cons.prems False nr have "ls' = l # ls1" "rep' = rep1"
        by simp_all
      then show ?thesis using Cons.IH [OF r] False
        by (simp add: broken_count_simps)
    qed
  qed
qed

lemma repair_loop_functional:
  "repair_loop ls rnd k now rep = (ls', rep') \<Longrightarrow> i < length ls \<Longrightarrow>
   is_functional (ls ! i) \<Longrightarrow> ls' ! i = (ls ! i)\<lparr>last_maintenance := Some now\<rparr>"
proof (induction ls arbitrary: k rep ls' rep' i)
  case Nil
  then show ?case by simp
next
  case (Cons l ls)
  then show ?case
    by (cases i) (auto simp: Let_def split: if_splits prod.splits)
qed

lemma repair_loop_no_luck:
  "repair_loop ls rnd k now rep = (ls', rep') \<Longrightarrow> \<forall>j. \<not> rnd j \<Longrightarrow>
   lockers_repaired rep' = lockers_repaired rep \<and>
   (\<forall>i<length ls. \<not> is_functional (ls ! i) \<longrightarrow> ls' ! i = ls ! i)"
proof (induction ls arbitrary: k rep ls' rep')
  case Nil
  then show ?case by simp
next
  case (Cons l ls)
  then show ?case
    by (auto simp: Let_def nth_Cons split: if_splits prod.splits nat.splits)
qed

text \<open>
  C8. \<open>perform_maintenance\<close> raises \<open>ValueError\<close> for the empty technician name.
  Otherwise it returns a report, appended to the log, with: \<open>lockers_checked\<close> the bank
  size; \<open>broken_before\<close> the number of non-functional lockers at entry;
  \<open>lockers_repaired + failed_repairs = broken_before\<close>; \<open>broken_after = failed_repairs\<close>,
  the number of non-functional lockers at exit; every locker that was functional differs
  only in its maintenance timestamp; and when every repair draw fails,
  \<open>broken_after = failed_repairs = broken_before\<close>, \<open>lockers_repaired = 0\<close> and the broken
  lockers are untouched.
\<close>

theorem perform_maintenance_report:
  "perform_maintenance s [] rnd now = Inl ValueError \<and>
   (tech \<noteq> [] \<longrightarrow>
     (\<exists>report s'.
        perform_maintenance s tech rnd now = Inr (report, s') \<and>
        maintenance_log s' = maintenance_log s @ [report] \<and>
        length (lockers s') = length (lockers s) \<and>
        lockers_checked report = int (length (lockers s)) \<and>
        broken_before report = broken_count (lockers s) \<and>
        broken_after report = broken_count (lockers s') \<and>
        lockers_repaired report + failed_repairs report = broken_before report \<and>
        broken_after report = failed_repairs report \<and>
        0 \<le> lockers_repaired report \<and>
        (\<forall>i<length (lockers s). is_functional (lockers s ! i) \<longrightarrow>
           lockers s' ! i = (lockers s ! i)\<lparr>last_maintenance := Some now\<rparr>) \<and>
        ((\<forall>k. \<not> rnd k) \<longrightarrow>
           broken_after report = broken_before report \<and>
           failed_repairs report = broken_before report \<and>
           lockers_repaired report = 0 \<and>
           (\<forall>i<length (lockers s). \<not> is_functional (lockers s ! i) \<longrightarrow>
              lockers s' ! i = lockers s ! i))))"
proof (intro conjI impI)
  show "perform_maintenance s [] rnd now = Inl ValueError"
    by (simp add: perform_maintenance_def)
next
  assume tech: "tech \<noteq> []"
  define report0 where "report0 =
     \<lparr>report_timestamp = now, technician = tech,
      lockers_checked = int (length (lockers s)),
      broken_before = int (length (filter (\<lambda>l. \<not> is_functional l) (lockers s))),
      broken_after = 0, lockers_repaired = 0, failed_repairs = 0,
      issues = map (\<lambda>l. WasBroken (number l)) (filter (\<lambda>l. \<not> is_functional l) (lockers s))\<rparr>"
  obtain ls' report1 where loop: "repair_loop (lockers s) rnd 0 now report0 = (ls', report1)"
    by (cases "repair_loop (lockers s) rnd 0 now report0")
  define report2 where "report2 = report1\<lparr>broken_after := broken_count ls'\<rparr>"
  define s' where "s' = s\<lparr>lockers := ls', maintenance_log := maintenance_log s @ [report2]\<rparr>"
  have res: "perform_maintenance s tech rnd now = Inr (report2, s')"
    using tech loop
    by (simp add: perform_maintenance_def Let_def report0_def [symmetric] report2_def s'_def
        broken_count_def)
  note fr = repair_loop_frame [OF loop]
  note cn = repair_loop_counts [OF loop]
  have a: "maintenance_log s' = maintenance_log s @ [report2]"
    and b: "length (lockers s') = length (lockers s)"
    and c: "lockers_checked report2 = int (length (lockers s))"
    and d: "broken_before report2 = broken_count (lockers s)"
    and e: "broken_after report2 = broken_count (lockers s')"
    using fr by (simp_all add: s'_def report2_def report0_def broken_count_def)
  have f: "lockers_repaired report2 + failed_repairs report2 = broken_before report2"
    and g: "broken_after report2 = failed_repairs report2"
    and h: "0 \<le> lockers_repaired report2"
    using cn fr by (simp_all add: report2_def report0_def broken_count_def)
  have i: "\<forall>i<length (lockers s). is_functional (lockers s ! i) \<longrightarrow>
             lockers s' ! i = (lockers s ! i)\<lparr>last_maintenance := Some now\<rparr>"
    using repair_loop_functional [OF loop] by (simp add: s'_def)
  have j: "(\<forall>k. \<not> rnd k) \<longrightarrow>
           broken_after report2 = broken_before report2 \<and>
           failed_repairs report2 = broken_before report2 \<and>
           lockers_repaired report2 = 0 \<and>
           (\<forall>i<length (lockers s). \<not> is_functional (lockers s ! i) \<longrightarrow>
              lockers s' ! i = lockers s ! i)"
  proof
    assume nl: "\<forall>k. \<not> rnd k"
    from repair_loop_no_luck [OF loop nl]
    have z: "lockers_repaired report2 = 0"
      and same: "\<forall>i<length (lockers s). \<not> is_functional (lockers s ! i) \<longrightarrow>
              lockers s' ! i = lockers s ! i"
      by (simp_all add: report2_def report0_def s'_def)
    with f g show "broken_after report2 = broken_before report2 \<and>
           failed_repairs report2 = broken_before report2 \<and>
           lockers_repaired report2 = 0 \<and>
           (\<forall>i<length (lockers s). \<not> is_functional (lockers s ! i) \<longrightarrow>
              lockers s' ! i = lockers s ! i)"
      by simp
  qed
  show "\<exists>report s'.
        perform_maintenance s tech rnd now = Inr (report, s') \<and>
        maintenance_log s' = maintenance_log s @ [report] \<and>
        length (lockers s') = length (lockers s) \<and>
        lockers_checked report = int (length (lockers s)) \<and>
        broken_before report = broken_count (lockers s) \<and>
        broken_after report = broken_count (lockers s') \<and>
        lockers_repaired report + failed_repairs report = broken_before report \<and>
        broken_after report = failed_repairs report \<and>
        0 \<le> lockers_repaired report \<and>
        (\<forall>i<length (lockers s). is_functional (lockers s ! i) \<longrightarrow>
           lockers s' ! i = (lockers s ! i)\<lparr>last_maintenance := Some now\<rparr>) \<and>
        ((\<forall>k. \<not> rnd k) \<longrightarrow>
           broken_after report = broken_before report \<and>
           failed_repairs report = broken_before report \<and>
           lockers_repaired report = 0 \<and>
           (\<forall>i<length (lockers s). \<not> is_functional (lockers s ! i) \<longrightarrow>
              lockers s' ! i = lockers s ! i))"
    using res a b c d e f g h i j by blast
qed

theorem perform_maintenance_report_witness:
  "''Tech'' \<noteq> [] \<and>
   (case perform_maintenance broken_station ''Tech'' (\<lambda>k. False) 20 of
      Inl e \<Rightarrow> False
    | Inr (report, s') \<Rightarrow>
        lockers_checked report = 3 \<and> broken_before report = 1 \<and>
        broken_after report = 1 \<and> failed_repairs report = 1 \<and>
        lockers_repaired report = 0 \<and>
        issues report = [WasBroken 1, NeedsReplacement 1] \<and>
        map is_functional (lockers s') = [False, True, True] \<and>
        map last_maintenance (lockers s') = [None, Some 20, Some 20]) \<and>
   (case perform_maintenance broken_station ''Tech'' (\<lambda>k. True) 20 of
      Inl e \<Rightarrow> False
    | Inr (report, s') \<Rightarrow>
        lockers_checked report = 3 \<and> broken_before report = 1 \<and>
        broken_after report = 0 \<and> failed_repairs report = 0 \<and>
        lockers_repaired report = 1 \<and>
        issues report = [WasBroken 1, Repaired 1] \<and>
        map is_functional (lockers s') = [True, True, True]) \<and>
   perform_maintenance broken_station [] (\<lambda>k. False) 20 = Inl ValueError"
  using perform_maintenance_report [of broken_station "\<lambda>k. False" 20 "''Tech''"]
        perform_maintenance_report [of broken_station "\<lambda>k. True" 20 "''Tech''"]
  by (simp add: perform_maintenance_def repair_def broken_station_def break_random_locker_def
      example_defs station_defs)

section \<open>Receiving with the wrong recipient\<close>

lemma check_security_unauthorized_alerts:
  "alerts_of_type ''unauthorized_access'' (snd (check_security s u opn now)) =
   alerts_of_type ''unauthorized_access'' s"
  by (simp add: alerts_of_type_def check_security_def log_security_alert_def Let_def)

lemma receive_mismatch_result:
  assumes "fst (fst (check_security s u ''receive'' now))"
    and "map_of (parcels s) t = Some r"
    and "person_id (recipient (parcel_heap s r)) \<noteq> person_id rcp"
  shows "receive_parcel s t rcp u now =
           (Inr (False, MsgNoRightsToReceive, None),
            log_security_alert (snd (check_security s u ''receive'' now))
              ''unauthorized_access'' (AttemptByNonRecipient t) now)"
  using assms check_security_admits_operational [OF assms(1)]
  by (simp add: receive_parcel_def case_prod_unfold Let_def check_security_frame)

text \<open>
  C4, as amended. When the security gate admits the call, a \<open>receive\<close> for an indexed
  parcel by a recipient whose identifier differs from the parcel's recipient identifier
  returns the authorization failure, appends exactly one \<open>unauthorized_access\<close> alert
  (after the gate's own alert, if any), and leaves the index, the lockers and every parcel
  object, hence the parcel's state, unchanged. (When the gate denies the call, the gate's
  message is returned and no \<open>unauthorized_access\<close> alert is logged.)
\<close>

theorem receive_parcel_unauthorized:
  assumes "fst (fst (check_security s u ''receive'' now))"
    and "map_of (parcels s) t = Some r"
    and "person_id (recipient (parcel_heap s r)) \<noteq> person_id rcp"
  shows "fst (receive_parcel s t rcp u now) = Inr (False, MsgNoRightsToReceive, None) \<and>
         alerts_of_type ''unauthorized_access'' (snd (receive_parcel s t rcp u now)) =
           alerts_of_type ''unauthorized_access'' s @
             [\<lparr>alert_timestamp = now, alert_type = ''unauthorized_access'',
               alert_description = AttemptByNonRecipient t\<rparr>] \<and>
         security_alerts (snd (receive_parcel s t rcp u now)) =
           security_alerts (snd (check_security s u ''receive'' now)) @
             [\<lparr>alert_timestamp = now, alert_type = ''unauthorized_access'',
               alert_description = AttemptByNonRecipient t\<rparr>] \<and>
         parcels (snd (receive_parcel s t rcp u now)) = parcels s \<and>
         lockers (snd (receive_parcel s t rcp u now)) = lockers s \<and>
         parcel_heap (snd (receive_parcel s t rcp u now)) = parcel_heap s"
proof -
  have "alerts_of_type ''unauthorized_access''
          (log_security_alert (snd (check_security s u ''receive'' now))
             ''unauthorized_access'' (AttemptByNonRecipient t) now) =
        alerts_of_type ''unauthorized_access'' (snd (check_security s u ''receive'' now)) @
             [\<lparr>alert_timestamp = now, alert_type = ''unauthorized_access'',
               alert_description = AttemptByNonRecipient t\<rparr>]"
    by (simp add: alerts_of_type_def log_security_alert_def Let_def)
  then show ?thesis
    by (simp add: receive_mismatch_result [OF assms] check_security_unauthorized_alerts)
       (simp add: log_security_alert_def Let_def check_security_frame)
qed

lemma locked_station_eval:
  "parcels locked_station = [(''TRK0000000001'', 1)]"
  "is_operational locked_station = False"
  "person_id (recipient (parcel_heap locked_station 1)) = ''0a1b2c3d4e''"
  "status (parcel_heap locked_station 1) = IN_POSTOMAT"
  "map alert_type (security_alerts locked_station) = [''unauthorized_access'']"
  by (simp_all add: locked_station_def receive_parcel_def example_defs station_defs)

text \<open>
  The claim without the gate fails: on a station locked by a first unauthorized attempt
  under level \<open>HIGH\<close>, a second attempt on the indexed parcel returns the gate's message
  and logs nothing.
\<close>

theorem receive_parcel_unauthorized_counterexample:
  "map_of (parcels locked_station) ''TRK0000000001'' = Some 1 \<and>
   person_id (recipient (parcel_heap locked_station 1)) \<noteq> person_id person_b \<and>
   fst (receive_parcel locked_station ''TRK0000000001'' person_b ''visitor'' 9) =
     Inr (False, MsgBlockedForSecurity, None) \<and>
   fst (receive_parcel locked_station ''TRK0000000001'' person_b ''visitor'' 9) \<noteq>
     Inr (False, MsgNoRightsToReceive, None) \<and>
   security_alerts (snd (receive_parcel locked_station ''TRK0000000001'' person_b ''visitor'' 9)) =
     security_alerts locked_station"
proof -
  have "receive_parcel locked_station ''TRK0000000001'' person_b ''visitor'' 9 =
          (Inr (False, MsgBlockedForSecurity, None), locked_station)"
    by (simp add: receive_parcel_def check_security_def locked_station_eval)
  then show ?thesis
    using locked_station_eval by (simp add: person_b_def)
qed

theorem receive_parcel_unauthorized_witness:
  "fst (fst (check_security sent_station ''visitor'' ''receive'' 8)) \<and>
   map_of (parcels sent_station) ''TRK0000000001'' = Some 1 \<and>
   person_id (recipient (parcel_heap sent_station 1)) \<noteq> person_id person_b \<and>
   fst (receive_parcel sent_station ''TRK0000000001'' person_b ''visitor'' 8) =
     Inr (False, MsgNoRightsToReceive, None) \<and>
   map alert_type (security_alerts
     (snd (receive_parcel sent_station ''TRK0000000001'' person_b ''visitor'' 8))) =
     [''unauthorized_access''] \<and>
   status (parcel_heap (snd (receive_parcel sent_station ''TRK0000000001'' person_b ''visitor'' 8)) 1) =
     IN_POSTOMAT"
proof -
  have a: "fst (fst (check_security sent_station ''visitor'' ''receive'' 8))"
    and b: "map_of (parcels sent_station) ''TRK0000000001'' = Some 1"
    and c: "person_id (recipient (parcel_heap sent_station 1)) \<noteq> person_id person_b"
    and d: "security_alerts (snd (check_security sent_station ''visitor'' ''receive'' 8)) = []"
    by (simp_all add: sent_station_def example_defs station_defs)
  show ?thesis
    using a b c d receive_parcel_unauthorized [OF a b c] sent_station_eval(3)
    by simp
qed

section \<open>The invariant holds in every reachable state\<close>

lemma bank_inv_holds:
  "bank_inv h ls ps \<Longrightarrow> j < length ls \<Longrightarrow> holds_ok h ps (ls ! j)"
  by (simp add: bank_inv_def)

lemma bank_inv_same_holder:
  assumes "bank_inv h ls ps" "j < length ls" "k < length ls"
    and "current_parcel (ls ! j) = Some r" "current_parcel (ls ! k) = Some r"
  shows "j = k"
proof -
  have "number (ls ! j) = number (ls ! k)"
    using bank_inv_holds [OF assms(1,2)] bank_inv_holds [OF assms(1,3)] assms(4,5)
    by (simp add: holds_ok_def)
  moreover have "distinct (map number ls)" using assms(1) by (simp add: bank_inv_def)
  ultimately show ?thesis using assms(2,3)
    by (metis distinct_conv_nth length_map nth_map)
qed

lemma bank_inv_put:
  assumes inv: "bank_inv h ls ps" and i: "i < length ls"
    and free: "\<not> is_occupied (ls ! i)" and fn: "is_functional (ls ! i)"
    and fresh: "map_of ps (tracking_number (h r)) = None"
  shows "bank_inv (h(r := place_in_locker (h r) (number (ls ! i)) now))
           (ls[i := (ls ! i)\<lparr>is_occupied := True, current_parcel := Some r\<rparr>])
           (AList.update (tracking_number (h r)) r ps)"
    (is "bank_inv ?h ?ls ?ps")
proof -
  have not_held: "current_parcel (ls ! j) \<noteq> Some r" if "j < length ls" for j
    using bank_inv_holds [OF inv that] fresh by (auto simp: holds_ok_def)
  have mp: "map_of ?ps = (map_of ps)(tracking_number (h r) \<mapsto> r)"
    by (simp add: update_conv')
  have tr: "tracking_number (?h r) = tracking_number (h r)"
    by (simp add: place_in_locker_def)
  have a: "holds_ok ?h ?ps (?ls ! j)" if j: "j < length ?ls" for j
  proof (cases "j = i")
    case True
    then show ?thesis using i fn
      by (simp add: holds_ok_def mp place_in_locker_def)
  next
    case False
    have ok: "holds_ok h ps (ls ! j)" using bank_inv_holds [OF inv] j by simp
    have "?ls ! j = ls ! j" using False by simp
    moreover have "holds_ok ?h ?ps (ls ! j)"
      unfolding holds_ok_def
    proof (intro conjI allI impI)
      show "is_functional (ls ! j)" if "is_occupied (ls ! j)"
        using ok that by (simp add: holds_ok_def)
      show "is_occupied (ls ! j) = (current_parcel (ls ! j) \<noteq> None)"
        using ok by (simp add: holds_ok_def)
      fix r' assume c: "current_parcel (ls ! j) = Some r'"
      then have ne: "r' \<noteq> r" using not_held [of j] j by auto
      have old: "locker_number (h r') = Some (number (ls ! j))"
        "status (h r') = IN_POSTOMAT \<or> status (h r') = EXPIRED"
        "map_of ps (tracking_number (h r')) = Some r'"
        using ok c by (simp_all add: holds_ok_def)
      have "tracking_number (h r') \<noteq> tracking_number (h r)"
        using old(3) fresh by auto
      then show "locker_number (?h r') = Some (number (ls ! j))"
        "status (?h r') = IN_POSTOMAT \<or> status (?h r') = EXPIRED"
        "map_of ?ps (tracking_number (?h r')) = Some r'"
        using ne old by (simp_all add: mp)
    qed
    ultimately show ?thesis by simp
  qed
  have b: "distinct (map number ?ls)"
  proof -
    have "map number ?ls = map number ls"
      using i by (simp add: map_update list_update_same_conv)
    then show ?thesis using inv by (simp add: bank_inv_def)
  qed
  have c: "tracking_number (?h r0) = t \<and> (\<exists>j<length ?ls. current_parcel (?ls ! j) = Some r0)"
    if m: "map_of ?ps t = Some r0" for t r0
  proof (cases "t = tracking_number (h r)")
    case True
    then have "r0 = r" using m by (simp add: mp)
    then show ?thesis using True i tr by auto
  next
    case False
    then have m': "map_of ps t = Some r0" using m by (simp add: mp)
    then have t: "tracking_number (h r0) = t"
      and ex: "\<exists>j<length ls. current_parcel (ls ! j) = Some r0"
      using inv by (auto simp: bank_inv_def)
    have ne: "r0 \<noteq> r" using t False by auto
    from ex obtain j where j: "j < length ls" "current_parcel (ls ! j) = Some r0" by blast
    have "j \<noteq> i" using j free bank_inv_holds [OF inv i] by (auto simp: holds_ok_def)
    then have "current_parcel (?ls ! j) = Some r0" using j by simp
    then show ?thesis using t ne j(1) by auto
  qed
  show ?thesis unfolding bank_inv_def using a b c by blast
qed

lemma bank_inv_take:
  assumes inv: "bank_inv h ls ps" and m: "map_of ps t = Some r"
    and k: "k < length ls" and held: "current_parcel (ls ! k) = Some r"
  shows "bank_inv (h(r := deliver (h r) now))
           (ls[k := (ls ! k)\<lparr>is_occupied := False, current_parcel := None\<rparr>])
           (AList.delete t ps)"
    (is "bank_inv ?h ?ls ?ps")
proof -
  have mp: "map_of ?ps = (map_of ps)(t := None)"
    by (simp add: delete_conv')
  have tr: "tracking_number (h r) = t"
    using inv m by (simp add: bank_inv_def)
  have a: "holds_ok ?h ?ps (?ls ! j)" if j: "j < length ?ls" for j
  proof (cases "j = k")
    case True
    then show ?thesis using k by (simp add: holds_ok_def)
  next
    case False
    have jl: "j < length ls" using j by simp
    have ok: "holds_ok h ps (ls ! j)" using bank_inv_holds [OF inv jl] .
    have "holds_ok ?h ?ps (ls ! j)"
      unfolding holds_ok_def
    proof (intro conjI allI impI)
      show "is_functional (ls ! j)" if "is_occupied (ls ! j)"
        using ok that by (simp add: holds_ok_def)
      show "is_occupied (ls ! j) = (current_parcel (ls ! j) \<noteq> None)"
        using ok by (simp add: holds_ok_def)
      fix r' assume c: "current_parcel (ls ! j) = Some r'"
      have ne: "r' \<noteq> r"
        using bank_inv_same_holder [OF inv jl k _ held] c False by auto
      have old: "locker_number (h r') = Some (number (ls ! j))"
        "status (h r') = IN_POSTOMAT \<or> status (h r') = EXPIRED"
        "map_of ps (tracking_number (h r')) = Some r'"
        using ok c by (simp_all add: holds_ok_def)
      have "tracking_number (h r') \<noteq> t"
        using old(3) m ne by auto
      then show "locker_number (?h r') = Some (number (ls ! j))"
        "status (?h r') = IN_POSTOMAT \<or> status (?h r') = EXPIRED"
        "map_of ?ps (tracking_number (?h r')) = Some r'"
        using ne old by (simp_all add: mp)
    qed
    then show ?thesis using False by simp
  qed
  have b: "distinct (map number ?ls)"
  proof -
    have "map number ?ls = map number ls"
      using k by (simp add: map_update list_update_same_conv)
    then show ?thesis using inv by (simp add: bank_inv_def)
  qed
  have c: "tracking_number (?h r0) = t0 \<and> (\<exists>j<length ?ls. current_parcel (?ls ! j) = Some r0)"
    if m0: "map_of ?ps t0 = Some r0" for t0 r0
  proof -
    have t0: "t0 \<noteq> t" and m': "map_of ps t0 = Some r0"
      using m0 by (auto simp: mp split: if_splits)
    then have t: "tracking_number (h r0) = t0"
      and ex: "\<exists>j<length ls. current_parcel (ls ! j) = Some r0"
      using inv by (auto simp: bank_inv_def)
    have ne: "r0 \<noteq> r" using t t0 tr by auto
    from ex obtain j where j: "j < length ls" "current_parcel (ls ! j) = Some r0" by blast
    have "j \<noteq> k" using j held ne by auto
    then have "current_parcel (?ls ! j) = Some r0" using j by simp
    then show ?thesis using t ne j(1) by auto
  qed
  show ?thesis unfolding bank_inv_def using a b c by blast
qed

lemma bank_inv_expire:
  assumes inv: "bank_inv h ls ps" and st: "status (h r) = IN_POSTOMAT"
  shows "bank_inv (h(r := (h r)\<lparr>status := EXPIRED\<rparr>)) ls ps"
  using inv unfolding bank_inv_def holds_ok_def
  by (auto simp: st)

lemma bank_inv_serviced:
  assumes inv: "bank_inv h ls ps" and rel: "list_all2 locker_serviced ls ls'"
  shows "bank_inv h ls' ps"
proof -
  have len: "length ls' = length ls" using rel by (simp add: list_all2_lengthD)
  have pt: "locker_serviced (ls ! j) (ls' ! j)" if "j < length ls" for j
    using rel that by (simp add: list_all2_nthD)
  have nums: "map number ls' = map number ls"
    using len pt by (auto simp: list_eq_iff_nth_eq locker_serviced_def)
  have a: "holds_ok h ps (ls' ! j)" if j: "j < length ls'" for j
    using bank_inv_holds [OF inv, of j] pt [of j] j len
    by (auto simp: holds_ok_def locker_serviced_def)
  have c: "tracking_number (h r) = t \<and> (\<exists>j<length ls'. current_parcel (ls' ! j) = Some r)"
    if "map_of ps t = Some r" for t r
  proof -
    from inv that have t: "tracking_number (h r) = t"
      and "\<exists>j<length ls. current_parcel (ls ! j) = Some r"
      by (auto simp: bank_inv_def)
    then obtain j where "j < length ls" "current_parcel (ls ! j) = Some r" by blast
    then have "j < length ls'" "current_parcel (ls' ! j) = Some r"
      using pt [of j] len by (simp_all add: locker_serviced_def)
    then show ?thesis using t by blast
  qed
  show ?thesis unfolding bank_inv_def using a c nums inv
    by (simp add: bank_inv_def)
qed

lemma station_inv_frame:
  "lockers s' = lockers s \<Longrightarrow> parcels s' = parcels s \<Longrightarrow> parcel_heap s' = parcel_heap s \<Longrightarrow>
   station_inv s' = station_inv s"
  by (simp add: station_inv_def)

lemma log_security_alert_frame:
  "lockers (log_security_alert s ty d now) = lockers s"
  "parcels (log_security_alert s ty d now) = parcels s"
  "parcel_heap (log_security_alert s ty d now) = parcel_heap s"
  by (simp_all add: log_security_alert_def Let_def)

lemma notify_internal_frame:
  "lockers (snd (notify_recipient_internal s rcp r msg now)) = lockers s"
  "parcels (snd (notify_recipient_internal s rcp r msg now)) = parcels s"
  "parcel_heap (snd (notify_recipient_internal s rcp r msg now)) = parcel_heap s"
  by (simp_all add: notify_recipient_internal_def Let_def)

subsection \<open>The initial bank\<close>

lemma create_lockers_from_nth:
  "j < length szs \<Longrightarrow> create_lockers_from i szs ! j = new_locker (i + int j) (szs ! j)"
proof (induction szs arbitrary: i j)
  case Nil
  then show ?case by simp
next
  case (Cons sz szs)
  then show ?case by (cases j) (simp_all add: add.assoc)
qed

lemma create_lockers_from_length: "length (create_lockers_from i szs) = length szs"
  by (induction szs arbitrary: i) simp_all

lemma create_lockers_from_numbers:
  "map number (create_lockers_from i szs) = map (\<lambda>j. i + int j) [0..<length szs]"
  by (rule nth_equalityI)
     (simp_all add: create_lockers_from_length create_lockers_from_nth new_locker_def)

lemma create_lockers_distinct: "distinct (map number (create_lockers_from i szs))"
  by (simp add: create_lockers_from_numbers distinct_map inj_on_def)

lemma station_inv_init:
  assumes "Postomat_init pid addr sizes level h = Inr s0"
  shows "station_inv s0"
proof -
  have s0: "lockers s0 = create_lockers sizes" "parcels s0 = []"
    using assms by (auto simp: Postomat_init_def split: if_splits)
  show ?thesis
    by (auto simp: station_inv_def bank_inv_def s0 create_lockers_def holds_ok_def
        create_lockers_from_length create_lockers_from_nth new_locker_def
        create_lockers_distinct)
qed

subsection \<open>Sending keeps the invariant\<close>

lemma first_fit_free:
  "first_fit ls sz i \<Longrightarrow> i < length ls \<and> \<not> is_occupied (ls ! i) \<and> is_functional (ls ! i)"
  by (simp add: first_fit_def locker_fits_def)

lemma station_inv_send:
  assumes inv: "station_inv s"
  shows "station_inv (snd (send_parcel s r u now))"
proof (cases "fst (fst (check_security s u ''send'' now))")
  case False
  then show ?thesis using inv
    by (simp add: send_parcel_denied station_inv_def check_security_frame)
next
  case admitted: True
  show ?thesis
  proof (cases "map_of (parcels s) (tracking_number (parcel_heap s r)) = None")
    case False
    then show ?thesis using inv admitted
      by (simp add: send_parcel_duplicate station_inv_def check_security_frame)
  next
    case fresh: True
    show ?thesis
    proof (cases "find_available_locker_loop (lockers s) (parcel_size (parcel_heap s r))")
      case None
      then have "\<forall>l\<in>set (lockers s). \<not> locker_fits l (parcel_size (parcel_heap s r))"
        by (simp add: find_loop_None)
      then show ?thesis using inv send_parcel_no_fit [OF admitted fresh]
        by (simp add: station_inv_def check_security_frame)
    next
      case (Some i)
      then have ff: "first_fit (lockers s) (parcel_size (parcel_heap s r)) i"
        by (simp add: find_loop_Some)
      note fr = first_fit_free [OF ff]
      have "bank_inv
              ((parcel_heap s)(r := place_in_locker (parcel_heap s r) (number (lockers s ! i)) now))
              ((lockers s)[i := (lockers s ! i)\<lparr>is_occupied := True, current_parcel := Some r\<rparr>])
              (AList.update (tracking_number (parcel_heap s r)) r (parcels s))"
        using bank_inv_put [of "parcel_heap s" "lockers s" "parcels s" i r now] inv fr fresh
        by (simp add: station_inv_def)
      then show ?thesis
        by (simp add: station_inv_def send_parcel_fit(2,3,4) [OF admitted fresh ff])
    qed
  qed
qed

subsection \<open>Receiving keeps the invariant\<close>

lemma find_locker_by_number_Some:
  "find_locker_by_number ls n = Some k \<Longrightarrow> k < length ls \<and> Some (number (ls ! k)) = n"
proof (induction ls arbitrary: k)
  case Nil
  then show ?case by simp
next
  case (Cons l ls)
  then show ?case by (cases k) (auto split: if_splits)
qed

lemma find_locker_by_number_None:
  "find_locker_by_number ls n = None \<Longrightarrow> j < length ls \<Longrightarrow> Some (number (ls ! j)) \<noteq> n"
proof (induction ls arbitrary: j)
  case Nil
  then show ?case by simp
next
  case (Cons l ls)
  then show ?case by (cases j) (auto split: if_splits)
qed

lemma bank_inv_find_holder:
  assumes inv: "bank_inv h ls ps" and m: "map_of ps t = Some r"
  shows "\<exists>k<length ls. find_locker_by_number ls (locker_number (h r)) = Some k \<and>
           current_parcel (ls ! k) = Some r \<and> is_occupied (ls ! k) \<and> is_functional (ls ! k)"
proof -
  from inv m have "\<exists>j<length ls. current_parcel (ls ! j) = Some r"
    unfolding bank_inv_def by blast
  then obtain j where j: "j < length ls" "current_parcel (ls ! j) = Some r"
    by blast
  have ok: "holds_ok h ps (ls ! j)" using bank_inv_holds [OF inv j(1)] .
  then have num: "locker_number (h r) = Some (number (ls ! j))"
    and occ: "is_occupied (ls ! j)" and fn: "is_functional (ls ! j)"
    using j(2) by (auto simp: holds_ok_def)
  obtain k where k: "find_locker_by_number ls (locker_number (h r)) = Some k"
    using find_locker_by_number_None [of ls "locker_number (h r)" j] j(1) num
    by (cases "find_locker_by_number ls (locker_number (h r))") auto
  from find_locker_by_number_Some [OF k]
  have kl: "k < length ls" and kn: "number (ls ! k) = number (ls ! j)"
    using num by auto
  have "distinct (map number ls)" using inv by (simp add: bank_inv_def)
  then have "k = j" using kl j(1) kn
    by (metis distinct_conv_nth length_map nth_map)
  then show ?thesis using k j occ fn by blast
qed

lemma receive_parcel_try_held:
  assumes "is_occupied (lockers s ! k)" "is_functional (lockers s ! k)"
    and "current_parcel (lockers s ! k) = Some r"
  shows "receive_parcel_try s k t now =
           (Inr (True, MsgReceived t, Some r),
            s\<lparr>lockers := (lockers s)[k := (lockers s ! k)\<lparr>is_occupied := False, current_parcel := None\<rparr>],
              parcel_heap := (parcel_heap s)(r := deliver (parcel_heap s r) now),
              parcels := AList.delete t (parcels s)\<rparr>)"
  using assms
  by (simp add: receive_parcel_try_def open_locker_def take_parcel_def Let_def)

lemma receive_parcel_inv:
  assumes inv: "station_inv s"
  shows "station_inv (snd (receive_parcel s t rcp u now)) \<and>
         fst (receive_parcel s t rcp u now) \<noteq> Inl e \<and>
         fst (receive_parcel s t rcp u now) \<noteq> Inr (False, MsgReceiveError le, None) \<and>
         fst (receive_parcel s t rcp u now) \<noteq> Inr (False, MsgLockerNotFound, None)"
proof -
  define chk where "chk = fst (check_security s u ''receive'' now)"
  define s1 where "s1 = snd (check_security s u ''receive'' now)"
  have inv1: "bank_inv (parcel_heap s1) (lockers s1) (parcels s1)"
    using inv by (simp add: s1_def station_inv_def check_security_frame)
  have eq: "receive_parcel s t rcp u now =
     (if \<not> fst chk then (Inr (False, snd chk, None), s1)
      else if \<not> is_operational s1 then (Inr (False, MsgTemporarilyNotWorking, None), s1)
      else
        (case map_of (parcels s1) t of
           None \<Rightarrow> (Inr (False, MsgNotFound t, None), s1)
         | Some r \<Rightarrow>
             if person_id (recipient (parcel_heap s1 r)) \<noteq> person_id rcp then
               (Inr (False, MsgNoRightsToReceive, None),
                log_security_alert s1 ''unauthorized_access'' (AttemptByNonRecipient t) now)
             else if status (parcel_heap s1 r) \<noteq> IN_POSTOMAT then
               (Inr (False, MsgNotReady (status (parcel_heap s1 r)), None), s1)
             else if is_expired (parcel_heap s1 r) now then
               (Inr (False, MsgStorageExpired, None),
                s1\<lparr>parcel_heap := (parcel_heap s1)(r := (parcel_heap s1 r)\<lparr>status := EXPIRED\<rparr>)\<rparr>)
             else
               (case find_locker_by_number (lockers s1) (locker_number (parcel_heap s1 r)) of
                  None \<Rightarrow> (Inr (False, MsgLockerNotFound, None), s1)
                | Some i \<Rightarrow> receive_parcel_try s1 i t now)))"
    unfolding receive_parcel_def case_prod_unfold Let_def chk_def s1_def by (rule refl)
  have gate_msg: "snd chk \<noteq> MsgReceiveError le" "snd chk \<noteq> MsgLockerNotFound"
    by (auto simp: chk_def check_security_def log_security_alert_def Let_def)
  show ?thesis
  proof (cases "\<not> fst chk \<or> \<not> is_operational s1")
    case True
    then show ?thesis using inv1 gate_msg by (auto simp: eq station_inv_def)
  next
    case go: False
    show ?thesis
    proof (cases "map_of (parcels s1) t")
      case None
      then show ?thesis using go inv1 by (simp add: eq station_inv_def)
    next
      case (Some r)
      consider (unauth) "person_id (recipient (parcel_heap s1 r)) \<noteq> person_id rcp"
        | (state) "person_id (recipient (parcel_heap s1 r)) = person_id rcp"
            "status (parcel_heap s1 r) \<noteq> IN_POSTOMAT"
        | (expired) "person_id (recipient (parcel_heap s1 r)) = person_id rcp"
            "status (parcel_heap s1 r) = IN_POSTOMAT" "is_expired (parcel_heap s1 r) now"
        | (take) "person_id (recipient (parcel_heap s1 r)) = person_id rcp"
            "status (parcel_heap s1 r) = IN_POSTOMAT" "\<not> is_expired (parcel_heap s1 r) now"
        by blast
      then show ?thesis
      proof cases
        case unauth
        then show ?thesis using go Some inv1
          by (simp add: eq station_inv_def log_security_alert_frame)
      next
        case state
        then show ?thesis using go Some inv1 by (simp add: eq station_inv_def)
      next
        case expired
        then show ?thesis using go Some bank_inv_expire [OF inv1 expired(2)]
          by (simp add: eq station_inv_def)
      next
        case take
        from bank_inv_find_holder [OF inv1 Some]
        obtain k where k: "k < length (lockers s1)"
          "find_locker_by_number (lockers s1) (locker_number (parcel_heap s1 r)) = Some k"
          "current_parcel (lockers s1 ! k) = Some r"
          "is_occupied (lockers s1 ! k)" "is_functional (lockers s1 ! k)"
          by blast
        have res: "receive_parcel s t rcp u now = receive_parcel_try s1 k t now"
          using go Some take k(2) by (simp add: eq)
        show ?thesis
          using bank_inv_take [OF inv1 Some k(1) k(3), of now]
          by (simp add: res receive_parcel_try_held [OF k(4,5,3)] station_inv_def)
      qed
    qed
  qed
qed

subsection \<open>Maintenance, forced failure, notification, reset and the sweep\<close>

lemma repair_loop_serviced:
  "repair_loop ls rnd k now rep = (ls', rep') \<Longrightarrow> list_all2 locker_serviced ls ls'"
proof (induction ls arbitrary: k rep ls' rep')
  case Nil
  then show ?case by simp
next
  case (Cons l ls)
  then show ?case
    by (auto simp: Let_def locker_serviced_def repair_def split: if_splits prod.splits)
qed

lemma station_inv_maintenance:
  assumes "station_inv s" "perform_maintenance s tech rnd now = Inr (report, s')"
  shows "station_inv s'"
proof -
  from assms(2) obtain ls' rep0 rep1 where
    loop: "repair_loop (lockers s) rnd 0 now rep0 = (ls', rep1)"
    and s': "lockers s' = ls'" "parcels s' = parcels s" "parcel_heap s' = parcel_heap s"
    by (auto simp: perform_maintenance_def Let_def split: if_splits prod.splits)
  show ?thesis
    using bank_inv_serviced [OF _ repair_loop_serviced [OF loop]] assms(1)
    by (simp add: station_inv_def s')
qed

lemma station_inv_break:
  assumes inv: "station_inv s"
  shows "station_inv (snd (break_random_locker s k now))"
proof -
  define cands where "cands =
    filter (\<lambda>i. is_functional (lockers s ! i) \<and> \<not> is_occupied (lockers s ! i))
      [0..<length (lockers s)]"
  show ?thesis
  proof (cases "cands = []")
    case True
    then show ?thesis using inv
      by (simp add: break_random_locker_def cands_def [symmetric])
  next
    case False
    define i where "i = cands ! (k mod length cands)"
    have "i \<in> set cands" using False by (simp add: i_def)
    then have i: "i < length (lockers s)" "\<not> is_occupied (lockers s ! i)"
      by (simp_all add: cands_def)
    have rel: "list_all2 locker_serviced (lockers s)
                 ((lockers s)[i := (lockers s ! i)\<lparr>is_functional := False\<rparr>])"
      using i by (auto simp: list_all2_conv_all_nth locker_serviced_def nth_list_update)
    have "lockers (snd (break_random_locker s k now)) =
            (lockers s)[i := (lockers s ! i)\<lparr>is_functional := False\<rparr>]"
      and "parcels (snd (break_random_locker s k now)) = parcels s"
      and "parcel_heap (snd (break_random_locker s k now)) = parcel_heap s"
      using False
      by (simp_all add: break_random_locker_def cands_def [symmetric] Let_def
          i_def [symmetric] log_security_alert_frame)
    then show ?thesis using bank_inv_serviced [OF _ rel] inv
      by (simp add: station_inv_def)
  qed
qed

lemma station_inv_notify:
  "station_inv s \<Longrightarrow> station_inv (snd (notify_recipient s t msg u now))"
  by (auto simp: notify_recipient_def case_prod_unfold Let_def station_inv_def
      check_security_frame notify_recipient_internal_def split: option.splits)

lemma station_inv_reset: "station_inv s \<Longrightarrow> station_inv (snd (reset_security s))"
  by (simp add: reset_security_def station_inv_def)

lemma check_expired_loop_inv:
  "bank_inv (parcel_heap s) (lockers s) ps0 \<Longrightarrow> parcels s = ps0 \<Longrightarrow>
   bank_inv (parcel_heap (snd (check_expired_loop ps s now)))
     (lockers (snd (check_expired_loop ps s now))) ps0 \<and>
   parcels (snd (check_expired_loop ps s now)) = ps0"
proof (induction ps arbitrary: s)
  case Nil
  then show ?case by simp
next
  case (Cons a ps)
  obtain t r where a: "a = (t, r)" by (cases a)
  show ?case
  proof (cases "is_expired (parcel_heap s r) now \<and> status (parcel_heap s r) = IN_POSTOMAT")
    case False
    then have "check_expired_loop (a # ps) s now = check_expired_loop ps s now"
      by (auto simp: a)
    then show ?thesis using Cons.IH [OF Cons.prems] by simp
  next
    case True
    define s2 where "s2 = snd (notify_recipient_internal
        (s\<lparr>parcel_heap := (parcel_heap s)(r := (parcel_heap s r)\<lparr>status := EXPIRED\<rparr>)\<rparr>)
        (Person.truncate (sender (((parcel_heap s)(r := (parcel_heap s r)\<lparr>status := EXPIRED\<rparr>)) r)))
        r (NotCollected t) now)"
    have fr: "parcel_heap s2 = (parcel_heap s)(r := (parcel_heap s r)\<lparr>status := EXPIRED\<rparr>)"
      "lockers s2 = lockers s" "parcels s2 = parcels s"
      by (simp_all add: s2_def notify_internal_frame)
    have inv2: "bank_inv (parcel_heap s2) (lockers s2) ps0"
      using bank_inv_expire [OF Cons.prems(1)] True by (simp add: fr)
    have "snd (check_expired_loop (a # ps) s now) = snd (check_expired_loop ps s2 now)"
      using True by (simp add: a Let_def case_prod_unfold s2_def)
    then show ?thesis
      using Cons.IH [OF inv2] Cons.prems(2) by (simp add: fr)
  qed
qed

lemma station_inv_check_expired:
  "station_inv s \<Longrightarrow> station_inv (snd (check_expired_parcels s now))"
  using check_expired_loop_inv [of s "parcels s" "parcels s" now]
  by (simp add: station_inv_def check_expired_parcels_def)

subsection \<open>Every run keeps the invariant\<close>

lemma station_inv_step: "station_inv s \<Longrightarrow> station_inv (step s opn)"
proof (cases opn)
  case (Send r u now)
  assume "station_inv s" then show ?thesis by (simp add: Send station_inv_send)
next
  case (Receive t rcp u now)
  assume "station_inv s" then show ?thesis
    using receive_parcel_inv [of s t rcp u now] by (simp add: Receive)
next
  case (Notify t msg u now)
  assume "station_inv s" then show ?thesis by (simp add: Notify station_inv_notify)
next
  case (Maintain tech rnd now)
  assume "station_inv s" then show ?thesis
    using station_inv_maintenance [of s tech rnd now]
    by (auto simp: Maintain split: sum.splits)
next
  case (BreakRandom k now)
  assume "station_inv s" then show ?thesis by (simp add: BreakRandom station_inv_break)
next
  case ResetSecurity
  assume "station_inv s" then show ?thesis by (simp add: ResetSecurity station_inv_reset)
next
  case (CheckExpired now)
  assume "station_inv s" then show ?thesis by (simp add: CheckExpired station_inv_check_expired)
qed

lemma station_inv_run: "station_inv s \<Longrightarrow> station_inv (run s ops)"
  unfolding run_def by (induction ops arbitrary: s) (simp_all add: station_inv_step)

lemma station_inv_reachable:
  "Postomat_init pid addr sizes level h = Inr s0 \<Longrightarrow> station_inv (run s0 ops)"
  by (rule station_inv_run [OF station_inv_init])

section \<open>Resident parcels\<close>

lemma station0_constructed:
  "Postomat_init ''P1'' ''Minsk'' [SMALL, LARGE, MEDIUM] level heap0 = Inr (station0 level)"
  by (simp add: Postomat_init_def station0_def)

text \<open>
  C1, as amended. In every state reached from a constructed station by the public
  operations, a parcel held by a locker carries that locker's number, and its state is
  \<open>IN_POSTOMAT\<close> or \<open>EXPIRED\<close>: the lazy-expire branch of \<open>receive\<close> and the sweep mark
  a parcel expired and leave it in its locker.
\<close>

theorem resident_parcel_bound:
  assumes "Postomat_init pid addr sizes level h = Inr s0"
  shows "\<forall>l\<in>set (lockers (run s0 ops)). \<forall>r. current_parcel l = Some r \<longrightarrow>
           locker_number (parcel_heap (run s0 ops) r) = Some (number l) \<and>
           (status (parcel_heap (run s0 ops) r) = IN_POSTOMAT \<or>
            status (parcel_heap (run s0 ops) r) = EXPIRED)"
proof (intro ballI allI impI)
  fix l r
  assume l: "l \<in> set (lockers (run s0 ops))" and c: "current_parcel l = Some r"
  have inv: "bank_inv (parcel_heap (run s0 ops)) (lockers (run s0 ops)) (parcels (run s0 ops))"
    using station_inv_reachable [OF assms, of ops] by (simp add: station_inv_def)
  from l obtain j where "j < length (lockers (run s0 ops))" "lockers (run s0 ops) ! j = l"
    by (auto simp: in_set_conv_nth)
  then have "holds_ok (parcel_heap (run s0 ops)) (parcels (run s0 ops)) l"
    using bank_inv_holds [OF inv] by auto
  then show "locker_number (parcel_heap (run s0 ops) r) = Some (number l) \<and>
           (status (parcel_heap (run s0 ops) r) = IN_POSTOMAT \<or>
            status (parcel_heap (run s0 ops) r) = EXPIRED)"
    using c by (simp add: holds_ok_def)
qed

lemma sent_station_run: "run (station0 MEDIUM_LEVEL) [Send 1 ''user'' 7] = sent_station"
  by (simp add: run_def sent_station_def)

theorem resident_parcel_bound_witness:
  "Postomat_init ''P1'' ''Minsk'' [SMALL, LARGE, MEDIUM] MEDIUM_LEVEL heap0 =
     Inr (station0 MEDIUM_LEVEL) \<and>
   current_parcel (lockers (run (station0 MEDIUM_LEVEL) [Send 1 ''user'' 7]) ! 1) = Some 1 \<and>
   number (lockers (run (station0 MEDIUM_LEVEL) [Send 1 ''user'' 7]) ! 1) = 2 \<and>
   locker_number (parcel_heap (run (station0 MEDIUM_LEVEL) [Send 1 ''user'' 7]) 1) = Some 2 \<and>
   status (parcel_heap (run (station0 MEDIUM_LEVEL) [Send 1 ''user'' 7]) 1) = IN_POSTOMAT"
proof -
  have ev: "lockers sent_station ! 1 \<in> set (lockers sent_station)"
    "current_parcel (lockers sent_station ! 1) = Some 1"
    "number (lockers sent_station ! 1) = 2"
    "status (parcel_heap sent_station 1) = IN_POSTOMAT"
    by (simp_all add: sent_station_def example_defs station_defs)
  note bound = resident_parcel_bound [OF station0_constructed, of MEDIUM_LEVEL
      "[Send 1 ''user'' 7]", unfolded sent_station_run]
  from bound ev(1,2)
  have "locker_number (parcel_heap sent_station 1) = Some (number (lockers sent_station ! 1))"
    by blast
  then show ?thesis
    unfolding sent_station_run
    using ev station0_constructed [of MEDIUM_LEVEL] by simp
qed

lemma expired_by_sweep_eval:
  "current_parcel (lockers expired_by_sweep ! 1) = Some 1"
  "status (parcel_heap expired_by_sweep 1) = EXPIRED"
  by (simp_all add: expired_by_sweep_def run_def check_expired_parcels_def is_expired_def
      example_defs station_defs)

lemma expired_by_receive_eval:
  "current_parcel (lockers expired_by_receive ! 1) = Some 1"
  "status (parcel_heap expired_by_receive 1) = EXPIRED"
  by (simp_all add: expired_by_receive_def run_def receive_parcel_def is_expired_def
      example_defs station_defs)

text \<open>
  The claim with \<open>IN_POSTOMAT\<close> alone fails: after a send, a sweep (or a receive by the
  right recipient) past the deadline leaves the parcel in its locker, expired.
\<close>

theorem resident_parcel_state_counterexample:
  "Postomat_init ''P1'' ''Minsk'' [SMALL, LARGE, MEDIUM] MEDIUM_LEVEL heap0 =
     Inr (station0 MEDIUM_LEVEL) \<and>
   current_parcel (lockers (run (station0 MEDIUM_LEVEL)
       [Send 1 ''user'' 7, CheckExpired 259200000008]) ! 1) = Some 1 \<and>
   status (parcel_heap (run (station0 MEDIUM_LEVEL)
       [Send 1 ''user'' 7, CheckExpired 259200000008]) 1) \<noteq> IN_POSTOMAT \<and>
   current_parcel (lockers (run (station0 MEDIUM_LEVEL)
       [Send 1 ''user'' 7, Receive ''TRK0000000001'' person_a ''user'' 259200000008]) ! 1) = Some 1 \<and>
   status (parcel_heap (run (station0 MEDIUM_LEVEL)
       [Send 1 ''user'' 7, Receive ''TRK0000000001'' person_a ''user'' 259200000008]) 1) \<noteq> IN_POSTOMAT"
  using expired_by_sweep_eval expired_by_receive_eval station0_constructed [of MEDIUM_LEVEL]
  by (simp add: expired_by_sweep_def expired_by_receive_def)

section \<open>Occupied lockers are functional\<close>

text \<open>
  C10. In every state reached from a constructed station by the public operations, every
  occupied locker is functional, and \<open>receive\<close> neither returns a \<open>LockerError\<close> of
  \<open>open\<close> or \<open>take_parcel\<close> nor raises.
\<close>

theorem occupied_lockers_functional:
  assumes "Postomat_init pid addr sizes level h = Inr s0"
  shows "(\<forall>l\<in>set (lockers (run s0 ops)). is_occupied l \<longrightarrow> is_functional l) \<and>
         fst (receive_parcel (run s0 ops) t rcp u now) \<noteq> Inr (False, MsgReceiveError le, None) \<and>
         fst (receive_parcel (run s0 ops) t rcp u now) \<noteq> Inl e"
proof -
  have inv: "station_inv (run s0 ops)"
    using station_inv_reachable [OF assms] .
  have "is_functional l" if "l \<in> set (lockers (run s0 ops))" "is_occupied l" for l
  proof -
    from that(1) obtain j where "j < length (lockers (run s0 ops))" "lockers (run s0 ops) ! j = l"
      by (auto simp: in_set_conv_nth)
    then have "holds_ok (parcel_heap (run s0 ops)) (parcels (run s0 ops)) l"
      using inv bank_inv_holds by (auto simp: station_inv_def)
    then show ?thesis using that(2) by (simp add: holds_ok_def)
  qed
  then show ?thesis using receive_parcel_inv [OF inv, of t rcp u now e le] by blast
qed

lemma sent_and_broken_eval:
  "map (\<lambda>l. (is_occupied l, is_functional l)) (lockers sent_and_broken) =
     [(False, False), (True, True), (False, True)]"
  "fst (receive_parcel sent_and_broken ''TRK0000000001'' person_a ''user'' 9) =
     Inr (True, MsgReceived ''TRK0000000001'', Some 1)"
  by (simp_all add: sent_and_broken_def run_def break_random_locker_def receive_parcel_def
      receive_parcel_try_def open_locker_def take_parcel_def is_expired_def
      example_defs station_defs)

theorem occupied_lockers_functional_witness:
  "Postomat_init ''P1'' ''Minsk'' [SMALL, LARGE, MEDIUM] LOW heap0 = Inr (station0 LOW) \<and>
   map (\<lambda>l. (is_occupied l, is_functional l))
     (lockers (run (station0 LOW) [Send 1 ''user'' 7, BreakRandom 0 8])) =
     [(False, False), (True, True), (False, True)] \<and>
   fst (receive_parcel (run (station0 LOW) [Send 1 ''user'' 7, BreakRandom 0 8])
          ''TRK0000000001'' person_a ''user'' 9) =
     Inr (True, MsgReceived ''TRK0000000001'', Some 1)"
  using occupied_lockers_functional [OF station0_constructed, of LOW
          "[Send 1 ''user'' 7, BreakRandom 0 8]" "''TRK0000000001''" person_a "''user''" 9
          "LockerBroken 2" AttributeError]
    sent_and_broken_eval station0_constructed [of LOW]
  by (simp add: sent_and_broken_def)

section \<open>Tracking-code generation\<close>

lemma str_digit_is_digit: "d < 10 \<Longrightarrow> is_digit (str_digit d)"
proof -
  assume "d < 10"
  then have "d \<in> {0, 1, 2, 3, 4, 5, 6, 7, 8, 9}" by auto
  then show ?thesis by (auto simp: is_digit_def str_digit_def)
qed

lemma prefix_choice: "random_choice d TRACKING_PREFIXES \<in> set TRACKING_PREFIXES"
  unfolding random_choice_def by (rule nth_mem) (simp add: TRACKING_PREFIXES_def)

lemma prefix_length: "p \<in> set TRACKING_PREFIXES \<Longrightarrow> length p = 3"
  by (auto simp: TRACKING_PREFIXES_def)

lemma tracking_candidate_format: "tracking_format (tracking_candidate rng k)"
proof -
  let ?p = "random_choice (rng k) TRACKING_PREFIXES"
  have p: "?p \<in> set TRACKING_PREFIXES" by (rule prefix_choice)
  have l: "length ?p = 3" using prefix_length [OF p] .
  show ?thesis
    unfolding tracking_format_def tracking_candidate_def Let_def
    using p l
    by (simp add: list_all_iff str_digit_is_digit random_randint_0_9_def)
qed

lemma generate_unique_tracking_result:
  assumes "generate_unique_tracking rng k existing = Some y"
  shows "fst y \<notin> existing \<and> snd (snd y) = insert (fst y) existing \<and>
         tracking_format (fst y)"
  by (rule generate_unique_tracking.raw_induct
        [where P = "\<lambda>rng k existing y. fst y \<notin> existing \<and>
                      snd (snd y) = insert (fst y) existing \<and> tracking_format (fst y)",
         OF _ assms])
     (auto simp: Let_def tracking_candidate_format split: if_splits)

lemma generate_unique_tracking_returns:
  "tracking_candidate rng (k + 11 * m) \<notin> existing \<Longrightarrow>
   generate_unique_tracking rng k existing \<noteq> None"
proof (induction m arbitrary: k)
  case 0
  then show ?case
    by (subst generate_unique_tracking.simps) (simp add: Let_def)
next
  case (Suc m)
  have "tracking_candidate rng (k + 11 + 11 * m) \<notin> existing"
    using Suc.prems by (simp add: add.assoc)
  from Suc.IH [OF this] show ?case
    by (subst generate_unique_tracking.simps) (simp add: Let_def)
qed

lemma generate_many_result:
  "generate_many n rng k existing = Some (ts, k', existing') \<Longrightarrow>
   length ts = n \<and> distinct ts \<and> set ts \<inter> existing = {} \<and>
   existing' = existing \<union> set ts \<and> list_all tracking_format ts"
proof (induction n arbitrary: k existing ts k' existing')
  case 0
  then show ?case by simp
next
  case (Suc n)
  from Suc.prems obtain t k1 ex1 ts1 where
    g: "generate_unique_tracking rng k existing = Some (t, k1, ex1)"
    and m: "generate_many n rng k1 ex1 = Some (ts1, k', existing')"
    and ts: "ts = t # ts1"
    by (auto split: option.splits)
  from generate_unique_tracking_result [OF g]
  have t: "t \<notin> existing" "ex1 = insert t existing" "tracking_format t" by simp_all
  from Suc.IH [OF m]
  have ih: "length ts1 = n" "distinct ts1" "set ts1 \<inter> ex1 = {}"
    "existing' = ex1 \<union> set ts1" "list_all tracking_format ts1"
    by simp_all
  show ?case using t ih by (auto simp: ts)
qed

text \<open>
  C9. When \<open>n\<close> generations in sequence return, the \<open>n\<close> codes are pairwise distinct,
  none was in the set before, each is a prefix of the fixed set followed by exactly ten
  digits, and the set afterwards is the set before plus the codes. One generation returns
  a code that was absent from the set and is in the returned set; and it does return as
  soon as some attempt draws a code absent from the set.
\<close>

theorem tracking_codes_distinct:
  "(generate_many n rng k existing = Some (ts, k', existing') \<longrightarrow>
      length ts = n \<and> distinct ts \<and> set ts \<inter> existing = {} \<and>
      existing' = existing \<union> set ts \<and> list_all tracking_format ts) \<and>
   (generate_unique_tracking rng k existing = Some (t, k1, ex1) \<longrightarrow>
      t \<notin> existing \<and> ex1 = insert t existing \<and> tracking_format t) \<and>
   (tracking_candidate rng (k + 11 * m) \<notin> existing \<longrightarrow>
      generate_unique_tracking rng k existing \<noteq> None)"
  using generate_many_result [of n rng k existing ts k' existing']
    generate_unique_tracking_result [of rng k existing "(t, k1, ex1)"]
    generate_unique_tracking_returns [of rng k m existing]
  by simp

lemma sticky_candidates:
  "tracking_candidate sticky_rng 0 = ''ABC0000000000''"
  "tracking_candidate sticky_rng 11 = ''ABC0000000000''"
  "tracking_candidate sticky_rng 22 = ''DLV3456789012''"
  by (simp_all add: tracking_candidate_def sticky_rng_def random_choice_def
      random_randint_0_9_def str_digit_def TRACKING_PREFIXES_def upt_rec)

lemma sticky_first:
  "generate_unique_tracking sticky_rng 0 {} = Some (''ABC0000000000'', 11, {''ABC0000000000''})"
  by (subst generate_unique_tracking.simps) (simp add: sticky_candidates Let_def)

lemma sticky_second:
  "generate_unique_tracking sticky_rng 11 {''ABC0000000000''} =
     Some (''DLV3456789012'', 33, {''DLV3456789012'', ''ABC0000000000''})"
  by (subst generate_unique_tracking.simps, simp add: sticky_candidates Let_def,
      subst generate_unique_tracking.simps, simp add: sticky_candidates Let_def)

lemma sticky_many:
  "generate_many 2 sticky_rng 0 {} =
     Some ([''ABC0000000000'', ''DLV3456789012''], 33, {''DLV3456789012'', ''ABC0000000000''})"
  by (simp add: numeral_2_eq_2 sticky_first sticky_second)

theorem tracking_codes_distinct_witness:
  "generate_many 2 sticky_rng 0 {} =
     Some ([''ABC0000000000'', ''DLV3456789012''], 33, {''DLV3456789012'', ''ABC0000000000''}) \<and>
   distinct [''ABC0000000000'', ''DLV3456789012''] \<and>
   list_all tracking_format [''ABC0000000000'', ''DLV3456789012''] \<and>
   generate_unique_tracking sticky_rng 11 {''ABC0000000000''} =
     Some (''DLV3456789012'', 33, {''DLV3456789012'', ''ABC0000000000''}) \<and>
   tracking_candidate sticky_rng (11 + 11 * 1) \<notin> {''ABC0000000000''} \<and>
   generate_unique_tracking sticky_rng 11 {''ABC0000000000''} \<noteq> None"
  using tracking_codes_distinct [of 2 sticky_rng 0 "{}"
          "[''ABC0000000000'', ''DLV3456789012'']" 33 "{''DLV3456789012'', ''ABC0000000000''}"
          "''DLV3456789012''" 33 "{''DLV3456789012'', ''ABC0000000000''}" 0]
        tracking_codes_distinct [of 2 sticky_rng 11 "{''ABC0000000000''}"
          "[]" 0 "{}"
          "''DLV3456789012''" 33 "{''DLV3456789012'', ''ABC0000000000''}" 1]
        sticky_many sticky_second sticky_candidates
  by simp

section \<open>Phone validation and normalization\<close>

lemmas phone_defs =
  validate_phone_def normalize_phone_def clean_phone_def re_match_def
  literal_then_digits_def is_space_def is_digit_def BELARUSIAN_OPERATORS_def Let_def

text \<open>
  C6. \<open>validate_phone\<close> accepts \<^verbatim>\<open>+375991234567\<close>, whose operator code \<^verbatim>\<open>99\<close> is not in
  the allow-list: the branch for the format \<^verbatim>\<open>+375XXXXXXXXX\<close> does not check the operator
  code, while the branches for the other three formats reject the same code.
\<close>

theorem validate_phone_plus375_any_operator:
  "validate_phone ''+375991234567'' = True \<and>
   take 2 (drop 4 (clean_phone ''+375991234567'')) = ''99'' \<and>
   ''99'' \<notin> set BELARUSIAN_OPERATORS \<and>
   validate_phone ''80991234567'' = False \<and>
   validate_phone ''375991234567'' = False \<and>
   validate_phone ''8991234567'' = False"
  by (simp add: phone_defs)

lemma validate_examples:
  "validate_phone ''+375 29 123-45-67''"
  "validate_phone ''8 029 1234567''"
  "validate_phone ''375291234567''"
  "validate_phone ''8291234567''"
  "normalize_phone ''8-029-123-45-67'' = ''+375291234567''"
  "normalize_phone ''8291234567'' = ''+375291234567''"
  "normalize_phone ''375291234567'' = ''+375291234567''"
  by (simp_all add: phone_defs)

text \<open>
  What does hold: an accepted string is in one of the four formats, with an operator code
  of the allow-list in the three formats without \<^verbatim>\<open>+\<close>, and is normalized to \<^verbatim>\<open>+375\<close>
  followed by nine digits.
\<close>

lemma clean_phone_no_newline: "CHR 0x0A \<notin> set (clean_phone p)"
  by (auto simp: clean_phone_def is_space_def)

lemma re_match_clean:
  "re_match lit n (clean_phone p) = literal_then_digits lit n (clean_phone p)"
proof -
  have "last (clean_phone p) \<noteq> CHR 0x0A" if "clean_phone p \<noteq> []"
    using clean_phone_no_newline [of p] last_in_set [OF that] by metis
  then show ?thesis by (auto simp: re_match_def)
qed

lemma validate_phone_normalized:
  assumes "validate_phone p"
  shows "literal_then_digits ''+375'' 9 (normalize_phone p)"
proof -
  let ?c = "clean_phone p"
  consider (a) "literal_then_digits ''+375'' 9 ?c"
    | (b) "\<not> literal_then_digits ''+375'' 9 ?c" "literal_then_digits ''80'' 9 ?c"
    | (c) "\<not> literal_then_digits ''+375'' 9 ?c" "\<not> literal_then_digits ''80'' 9 ?c"
          "literal_then_digits ''375'' 9 ?c"
    | (d) "\<not> literal_then_digits ''+375'' 9 ?c" "\<not> literal_then_digits ''80'' 9 ?c"
          "\<not> literal_then_digits ''375'' 9 ?c" "literal_then_digits ''8'' 9 ?c"
    using assms by (auto simp: validate_phone_def Let_def re_match_clean split: if_splits)
  then show ?thesis
  proof cases
    case a
    then show ?thesis by (simp add: normalize_phone_def Let_def re_match_clean)
  next
    case b
    then show ?thesis
      by (auto simp: normalize_phone_def Let_def re_match_clean literal_then_digits_def
          numeral_2_eq_2 numeral_3_eq_3)
  next
    case c
    have "\<not> (literal_then_digits ''8'' 9 ?c \<and> length ?c = 10)"
      using c(3) by (auto simp: literal_then_digits_def)
    then show ?thesis using c
      by (auto simp: normalize_phone_def Let_def re_match_clean literal_then_digits_def
          numeral_2_eq_2 numeral_3_eq_3)
  next
    case d
    then show ?thesis
      by (auto simp: normalize_phone_def Let_def re_match_clean literal_then_digits_def
          numeral_2_eq_2 numeral_3_eq_3)
  qed
qed

lemma validate_phone_formats:
  assumes "validate_phone p"
  shows "literal_then_digits ''+375'' 9 (clean_phone p) \<or>
         (literal_then_digits ''80'' 9 (clean_phone p) \<and>
            take 2 (drop 2 (clean_phone p)) \<in> set BELARUSIAN_OPERATORS) \<or>
         (literal_then_digits ''375'' 9 (clean_phone p) \<and>
            take 2 (drop 3 (clean_phone p)) \<in> set BELARUSIAN_OPERATORS) \<or>
         (literal_then_digits ''8'' 9 (clean_phone p) \<and>
            take 2 (drop 1 (clean_phone p)) \<in> set BELARUSIAN_OPERATORS)"
  using assms
  by (auto simp: validate_phone_def Let_def re_match_clean split: if_splits)

end
